theory Spec2Isabelle
  imports Main "HOL-Library.Word" "HOL-Library.AList"
begin

section \<open>Bytes and the base64 transport encoding\<close>

text \<open>
  A Node \<open>Buffer\<close> is a sequence of bytes. The client turns every chunk it reads into
  text with \<open>chunk.toString('base64')\<close> and the server turns the text back into bytes
  with \<open>Buffer.from(chunk, 'base64')\<close>. Both are functions of the Node runtime; they
  are written out here after RFC 4648 and after the runtime's decoder, which reads the
  standard and the URL-safe alphabet, skips every other character and stops at the
  first \<open>=\<close>.
\<close>

type_synonym byte = "8 word"

definition b64_char :: "nat \<Rightarrow> char" where
  "b64_char i =
     (if i < 26 then char_of (65 + i)
      else if i < 52 then char_of (71 + i)
      else if i < 62 then char_of (i - 4)
      else if i = 62 then CHR ''+'' else CHR ''/'')"

fun b64_encode :: "byte list \<Rightarrow> string" where
  "b64_encode (a # b # c # rest) =
     b64_char (unat a div 4) #
     b64_char ((unat a mod 4) * 16 + unat b div 16) #
     b64_char ((unat b mod 16) * 4 + unat c div 64) #
     b64_char (unat c mod 64) # b64_encode rest"
| "b64_encode [a, b] =
     [b64_char (unat a div 4),
      b64_char ((unat a mod 4) * 16 + unat b div 16),
      b64_char ((unat b mod 16) * 4), CHR ''='']"
| "b64_encode [a] =
     [b64_char (unat a div 4), b64_char ((unat a mod 4) * 16), CHR ''='', CHR ''='']"
| "b64_encode [] = []"

definition b64_value :: "char \<Rightarrow> nat option" where
  "b64_value c =
     (let n = (of_char c :: nat) in
      if 65 \<le> n \<and> n \<le> 90 then Some (n - 65)
      else if 97 \<le> n \<and> n \<le> 122 then Some (n - 71)
      else if 48 \<le> n \<and> n \<le> 57 then Some (n + 4)
      else if n = 43 \<or> n = 45 then Some 62
      else if n = 47 \<or> n = 95 then Some 63
      else None)"

fun b64_sextets :: "string \<Rightarrow> nat list" where
  "b64_sextets [] = []"
| "b64_sextets (c # cs) =
     (if c = CHR ''='' then []
      else case b64_value c of
             None \<Rightarrow> b64_sextets cs
           | Some v \<Rightarrow> v # b64_sextets cs)"

fun b64_bytes :: "nat list \<Rightarrow> byte list" where
  "b64_bytes (p # q # r # s # rest) =
     of_nat (p * 4 + q div 16) # of_nat ((q mod 16) * 16 + r div 4) #
     of_nat ((r mod 4) * 64 + s) # b64_bytes rest"
| "b64_bytes [p, q, r] = [of_nat (p * 4 + q div 16), of_nat ((q mod 16) * 16 + r div 4)]"
| "b64_bytes [p, q] = [of_nat (p * 4 + q div 16)]"
| "b64_bytes [p] = []"
| "b64_bytes [] = []"

definition b64_decode :: "string \<Rightarrow> byte list" where
  "b64_decode s = b64_bytes (b64_sextets s)"

section \<open>Numbers in template strings\<close>

text \<open>
  \<open>`download_${Date.now()}`\<close> renders the clock reading, an integer number of
  milliseconds, in decimal, with a leading minus sign when it is negative.
\<close>

function show_nat :: "nat \<Rightarrow> string" where
  "show_nat n =
     (if n < 10 then [char_of (48 + n)]
      else show_nat (n div 10) @ [char_of (48 + n mod 10)])"
  by pat_completeness auto
termination
  by (relation "measure (\<lambda>n. n)") auto

declare show_nat.simps [simp del]

definition show_int :: "int \<Rightarrow> string" where
  "show_int i = (if i < 0 then CHR ''-'' # show_nat (nat (- i)) else show_nat (nat i))"

section \<open>The message envelope\<close>

text \<open>
  The JSON objects exchanged on the WebSocket, by their \<open>type\<close> field:
  \<open>register\<close>, \<open>registered\<close>, \<open>download-request\<close>, \<open>file-chunk\<close>
  (clientId, downloadId, chunk, chunkIndex), \<open>file-complete\<close> (clientId, downloadId,
  totalChunks, fileSize) and \<open>error\<close> (clientId, downloadId, error). Any other type
  is \<open>UnknownType\<close>.
\<close>

datatype message =
    Register string
  | Registered string
  | DownloadRequest string
  | FileChunk string string string nat
  | FileComplete string string nat nat
  | ErrorMsg string string string
  | UnknownType string

section \<open>The client: handleDownloadRequest\<close>

text \<open>
  \<open>CHUNK_SIZE = parseInt(process.env.CHUNK_SIZE) || 64 * 1024\<close>: the argument is the
  parsed variable, \<open>None\<close> when it is unset or not a number; \<open>0\<close> is falsy and gives
  the default as well. A size is a natural number here: a negative setting, which
  \<open>createReadStream\<close> refuses, is left out.
\<close>

definition CHUNK_SIZE :: "nat option \<Rightarrow> nat" where
  "CHUNK_SIZE env = (case env of None \<Rightarrow> 64 * 1024 | Some n \<Rightarrow> if n = 0 then 64 * 1024 else n)"

text \<open>
  What the client finds when it serves a request: the file at \<open>FILE_PATH\<close>
  (\<open>None\<close> when \<open>fs.existsSync\<close> is false), whether \<open>fs.statSync\<close> or
  \<open>fs.createReadStream\<close> throws (the \<open>catch\<close> branch), whether the read stream raises
  \<open>error\<close> after it has delivered a given number of chunks, and whether the callback
  of \<open>ws.send\<close> reports an error for the chunk of a given index. The file does not
  change while it is served, so that \<open>stats.size\<close> is the number of bytes read.
\<close>

record source_env =
  source_file :: "byte list option"
  open_error :: "string option"
  read_error :: "nat \<Rightarrow> string option"
  send_error :: "nat \<Rightarrow> bool"

text \<open>
  \<open>fs.createReadStream(FILE_PATH, {highWaterMark: CHUNK_SIZE})\<close> delivers the file in
  \<open>data\<close> events of \<open>CHUNK_SIZE\<close> bytes, the last one shorter, and none for an empty
  file.
\<close>

function read_chunks :: "nat \<Rightarrow> byte list \<Rightarrow> byte list list" where
  "read_chunks n bs =
     (if n = 0 \<or> bs = [] then [] else take n bs # read_chunks n (drop n bs))"
  by pat_completeness auto
termination
  by (relation "measure (\<lambda>(n, bs). length bs)") auto

declare read_chunks.simps [simp del]

text \<open>
  The \<open>data\<close>, \<open>end\<close> and \<open>error\<close> handlers of the read stream. The stream is paused
  while a chunk is sent and resumed by the callback of \<open>ws.send\<close>, which also
  increments \<open>chunkIndex\<close>; a send error destroys the stream, so that nothing follows.
  The result is the list of messages handed to \<open>ws.send\<close>, in order.
\<close>

fun stream_events ::
  "source_env \<Rightarrow> string \<Rightarrow> string \<Rightarrow> nat \<Rightarrow> nat \<Rightarrow> byte list list \<Rightarrow> message list" where
  "stream_events e clientId downloadId fileSize chunkIndex [] =
     (case read_error e chunkIndex of
        Some msg \<Rightarrow> [ErrorMsg clientId downloadId msg]
      | None \<Rightarrow> [FileComplete clientId downloadId chunkIndex fileSize])"
| "stream_events e clientId downloadId fileSize chunkIndex (chunk # rest) =
     (case read_error e chunkIndex of
        Some msg \<Rightarrow> [ErrorMsg clientId downloadId msg]
      | None \<Rightarrow>
          FileChunk clientId downloadId (b64_encode chunk) chunkIndex #
          (if send_error e chunkIndex then []
           else stream_events e clientId downloadId fileSize (Suc chunkIndex) rest))"

definition handleDownloadRequest ::
  "source_env \<Rightarrow> string \<Rightarrow> nat option \<Rightarrow> string \<Rightarrow> message list" where
  "handleDownloadRequest e CLIENT_ID chunk_env downloadId =
     (case source_file e of
        None \<Rightarrow> [ErrorMsg CLIENT_ID downloadId ''File not found'']
      | Some content \<Rightarrow>
          (case open_error e of
             Some msg \<Rightarrow> [ErrorMsg CLIENT_ID downloadId msg]
           | None \<Rightarrow>
               stream_events e CLIENT_ID downloadId (length content) 0
                 (read_chunks (CHUNK_SIZE chunk_env) content)))"

section \<open>The server\<close>

text \<open>
  A connection is known by its identity (\<open>client.ws === ws\<close>). A write stream made by
  \<open>fs.createWriteStream\<close> is an object of its own: the server state holds all of them,
  each with its path, the bytes written to it and whether \<open>end()\<close> was called, and a
  download refers to its stream by position. \<open>clients\<close> is the \<open>Map\<close> of the source,
  in insertion order. \<open>sent\<close> are the messages handed to \<open>ws.send\<close> and \<open>console\<close>
  the lines logged (the figures of a line, not their formatting). The clock reading of
  \<open>Date.now()\<close> and \<open>new Date()\<close> is an argument of the function that reads it. A
  message is taken to have the fields of its type, with the types the client gives them.
\<close>

type_synonym socket = nat

record download =
  download_id :: string
  filePath :: string
  stream :: nat
  chunksReceived :: nat
  startTime :: int

record client =
  ws :: socket
  client_id :: string
  connectedAt :: int
  currentDownload :: "download option"

record write_stream =
  path :: string
  written :: "byte list"
  ended :: bool

datatype log_line =
    NewConnection
  | ClientRegistered string
  | ClientDisconnected string
  | ClientNotFound string
  | StartingDownload string string
  | ReceivedChunks nat string
  | DownloadComplete string string nat nat int
  | ErrorFromClient string string
  | RequestingDownload string
  | UnknownMessageType string
  | ErrorProcessingMessage

record server =
  DOWNLOAD_DIR :: string
  clients :: "(string \<times> client) list"
  streams :: "write_stream list"
  sent :: "(socket \<times> message) list"
  console :: "log_line list"

definition initial_server :: "string \<Rightarrow> server" where
  "initial_server dir =
     \<lparr>DOWNLOAD_DIR = dir, clients = [], streams = [], sent = [], console = []\<rparr>"

text \<open>
  \<open>path.join(DOWNLOAD_DIR, fileName)\<close>, as the runtime computes it on POSIX: the
  arguments that are not empty are joined by a slash and the result is normalised.
  \<open>normalizeString\<close> walks through the segments between slashes and keeps the segments
  of its result, the last one first: an empty segment and \<open>.\<close> are dropped, \<open>..\<close>
  removes the segment before it (or stays, in a relative path that has none left), and
  any other segment is kept. \<open>normalize\<close> puts the leading and the trailing slash back.
\<close>

fun split_slash :: "string \<Rightarrow> string list" where
  "split_slash [] = [[]]"
| "split_slash (c # cs) =
     (if c = CHR ''/'' then [] # split_slash cs
      else case split_slash cs of
             [] \<Rightarrow> [[c]]
           | seg # segs \<Rightarrow> (c # seg) # segs)"

fun join_slash :: "string list \<Rightarrow> string" where
  "join_slash [] = []"
| "join_slash [seg] = seg"
| "join_slash (seg # next # segs) = seg @ ''/'' @ join_slash (next # segs)"

definition normalize_segment :: "bool \<Rightarrow> string list \<Rightarrow> string \<Rightarrow> string list" where
  "normalize_segment allowAboveRoot res seg =
     (if seg = [] \<or> seg = ''.'' then res
      else if seg = ''..'' then
        (case res of
           [] \<Rightarrow> if allowAboveRoot then [''..''] else []
         | seg0 # below \<Rightarrow>
             if seg0 = ''..'' then (if allowAboveRoot then ''..'' # res else res) else below)
      else seg # res)"

definition normalizeString :: "string \<Rightarrow> bool \<Rightarrow> string" where
  "normalizeString p allowAboveRoot =
     join_slash (rev (foldl (normalize_segment allowAboveRoot) [] (split_slash p)))"

definition normalize :: "string \<Rightarrow> string" where
  "normalize p =
     (if p = [] then ''.''
      else
        let isAbsolute = (hd p = CHR ''/'');
            trailingSeparator = (last p = CHR ''/'');
            q = normalizeString p (\<not> isAbsolute)
        in if q = [] then (if isAbsolute then ''/'' else if trailingSeparator then ''./'' else ''.'')
           else (if isAbsolute then ''/'' else []) @ q @ (if trailingSeparator then ''/'' else []))"

definition path_join :: "string \<Rightarrow> string \<Rightarrow> string" where
  "path_join a b =
     (let joined = (if a = [] then b else if b = [] then a else a @ ''/'' @ b)
      in if joined = [] then ''.'' else normalize joined)"

definition fileName_of :: "string \<Rightarrow> string \<Rightarrow> string" where
  "fileName_of clientId downloadId = clientId @ ''_'' @ downloadId @ ''_file_to_download.txt''"

text \<open>
  \<open>stream.write(buffer)\<close> appends to the stream and \<open>stream.end()\<close> ends it. The server
  ends a stream only in \<open>handleFileComplete\<close>, which deletes the one reference to it in
  the same step, so no write follows an end.
\<close>

definition createWriteStream :: "string \<Rightarrow> write_stream" where
  "createWriteStream p = \<lparr>path = p, written = [], ended = False\<rparr>"

definition stream_write :: "nat \<Rightarrow> byte list \<Rightarrow> write_stream list \<Rightarrow> write_stream list" where
  "stream_write h buffer ss = ss[h := (ss ! h)\<lparr>written := written (ss ! h) @ buffer\<rparr>]"

definition stream_end :: "nat \<Rightarrow> write_stream list \<Rightarrow> write_stream list" where
  "stream_end h ss = ss[h := (ss ! h)\<lparr>ended := True\<rparr>]"

definition handleClientRegistration :: "int \<Rightarrow> socket \<Rightarrow> string \<Rightarrow> server \<Rightarrow> server" where
  "handleClientRegistration now w clientId s =
     s\<lparr>clients := AList.update clientId
          \<lparr>ws = w, client_id = clientId, connectedAt = now, currentDownload = None\<rparr> (clients s),
       console := console s @ [ClientRegistered clientId],
       sent := sent s @ [(w, Registered clientId)]\<rparr>"

definition handleFileChunk :: "int \<Rightarrow> string \<Rightarrow> string \<Rightarrow> string \<Rightarrow> nat \<Rightarrow> server \<Rightarrow> server" where
  "handleFileChunk now clientId downloadId chunk chunkIndex s =
     (case map_of (clients s) clientId of
        None \<Rightarrow> s\<lparr>console := console s @ [ClientNotFound clientId]\<rparr>
      | Some c \<Rightarrow>
          let (d, s1) =
                (case currentDownload c of
                   Some d \<Rightarrow> (d, s)
                 | None \<Rightarrow>
                     let fileName = fileName_of clientId downloadId;
                         fp = path_join (DOWNLOAD_DIR s) fileName
                     in (\<lparr>download_id = downloadId, filePath = fp,
                           stream = length (streams s), chunksReceived = 0, startTime = now\<rparr>,
                         s\<lparr>streams := streams s @ [createWriteStream fp],
                           console := console s @ [StartingDownload clientId fileName]\<rparr>));
              buffer = b64_decode chunk;
              d' = d\<lparr>chunksReceived := chunksReceived d + 1\<rparr>;
              s2 = s1\<lparr>streams := stream_write (stream d) buffer (streams s1),
                      clients := AList.update clientId (c\<lparr>currentDownload := Some d'\<rparr>) (clients s1)\<rparr>
          in if chunksReceived d' mod 100 = 0
             then s2\<lparr>console := console s2 @ [ReceivedChunks (chunksReceived d') clientId]\<rparr>
             else s2)"

definition handleFileComplete :: "int \<Rightarrow> string \<Rightarrow> string \<Rightarrow> nat \<Rightarrow> nat \<Rightarrow> server \<Rightarrow> server" where
  "handleFileComplete now clientId downloadId totalChunks fileSize s =
     (case map_of (clients s) clientId of
        None \<Rightarrow> s\<lparr>console := console s @ [ClientNotFound clientId]\<rparr>
      | Some c \<Rightarrow>
          (case currentDownload c of
             None \<Rightarrow> s
           | Some d \<Rightarrow>
               s\<lparr>streams := stream_end (stream d) (streams s),
                 console := console s @
                   [DownloadComplete clientId (filePath d) fileSize totalChunks (now - startTime d)],
                 clients := AList.update clientId (c\<lparr>currentDownload := None\<rparr>) (clients s)\<rparr>))"

definition handleClientError :: "string \<Rightarrow> string \<Rightarrow> server \<Rightarrow> server" where
  "handleClientError clientId err s = s\<lparr>console := console s @ [ErrorFromClient clientId err]\<rparr>"

text \<open>
  \<open>requestFileDownload\<close> returns a promise that is settled before the function
  returns: rejected with \<open>Client ... is not connected\<close>, or resolved with the handle.
\<close>

datatype request_error = ClientNotConnected string

record download_handle =
  handle_clientId :: string
  handle_downloadId :: string
  handle_status :: string

definition new_downloadId :: "int \<Rightarrow> string" where
  "new_downloadId now = ''download_'' @ show_int now"

definition requestFileDownload ::
  "int \<Rightarrow> string \<Rightarrow> server \<Rightarrow> (request_error + download_handle) \<times> server" where
  "requestFileDownload now clientId s =
     (case map_of (clients s) clientId of
        None \<Rightarrow> (Inl (ClientNotConnected clientId), s)
      | Some c \<Rightarrow>
          let downloadId = new_downloadId now in
          (Inr \<lparr>handle_clientId = clientId, handle_downloadId = downloadId,
                handle_status = ''initiated''\<rparr>,
           s\<lparr>console := console s @ [RequestingDownload clientId],
             sent := sent s @ [(ws c, DownloadRequest downloadId)]\<rparr>))"

text \<open>
  The \<open>message\<close> handler of a connection: \<open>None\<close> is a text that \<open>JSON.parse\<close>
  rejects. The chunk, complete and error handlers are not given the connection.
\<close>

definition on_message :: "int \<Rightarrow> socket \<Rightarrow> message option \<Rightarrow> server \<Rightarrow> server" where
  "on_message now w m s =
     (case m of
        None \<Rightarrow> s\<lparr>console := console s @ [ErrorProcessingMessage]\<rparr>
      | Some (Register clientId) \<Rightarrow> handleClientRegistration now w clientId s
      | Some (FileChunk clientId downloadId chunk chunkIndex) \<Rightarrow>
          handleFileChunk now clientId downloadId chunk chunkIndex s
      | Some (FileComplete clientId downloadId totalChunks fileSize) \<Rightarrow>
          handleFileComplete now clientId downloadId totalChunks fileSize s
      | Some (ErrorMsg clientId downloadId err) \<Rightarrow> handleClientError clientId err s
      | Some (Registered clientId) \<Rightarrow> s\<lparr>console := console s @ [UnknownMessageType ''registered'']\<rparr>
      | Some (DownloadRequest downloadId) \<Rightarrow>
          s\<lparr>console := console s @ [UnknownMessageType ''download-request'']\<rparr>
      | Some (UnknownType ty) \<Rightarrow> s\<lparr>console := console s @ [UnknownMessageType ty]\<rparr>)"

text \<open>
  The \<open>close\<close> handler: the first entry of the map whose connection is the closed one
  is deleted, and the loop stops there.
\<close>

definition on_close :: "socket \<Rightarrow> server \<Rightarrow> server" where
  "on_close w s =
     (case find (\<lambda>(clientId, c). ws c = w) (clients s) of
        None \<Rightarrow> s
      | Some (clientId, c) \<Rightarrow>
          s\<lparr>clients := AList.delete clientId (clients s),
            console := console s @ [ClientDisconnected clientId]\<rparr>)"

text \<open>What happens at the server, one event after the other.\<close>

datatype event =
    Connected socket
  | Received int socket "message option"
  | Closed socket
  | Requested int string

fun step :: "event \<Rightarrow> server \<Rightarrow> server" where
  "step (Connected w) s = s\<lparr>console := console s @ [NewConnection]\<rparr>"
| "step (Received now w m) s = on_message now w m s"
| "step (Closed w) s = on_close w s"
| "step (Requested now clientId) s = snd (requestFileDownload now clientId s)"

definition run :: "event list \<Rightarrow> server \<Rightarrow> server" where
  "run evs s = fold step evs s"

text \<open>
  The messages \<open>ms\<close> arriving in order, the \<open>k\<close>-th at the time and on the
  connection that \<open>at k\<close> gives.
\<close>

fun arrivals :: "(nat \<Rightarrow> int \<times> socket) \<Rightarrow> nat \<Rightarrow> message list \<Rightarrow> event list" where
  "arrivals at k [] = []"
| "arrivals at k (m # ms) = Received (fst (at k)) (snd (at k)) (Some m) # arrivals at (Suc k) ms"

text \<open>The \<open>chunkIndex\<close> of a \<open>file-chunk\<close> message.\<close>

fun chunkIndex_of :: "message \<Rightarrow> nat option" where
  "chunkIndex_of (FileChunk clientId downloadId chunk chunkIndex) = Some chunkIndex"
| "chunkIndex_of _ = None"

text \<open>
  The identifiers of the \<open>download-request\<close> messages sent so far, in order, and the
  clock readings of the requests made in a history.
\<close>

fun requested_ids :: "(socket \<times> message) list \<Rightarrow> string list" where
  "requested_ids [] = []"
| "requested_ids ((w, DownloadRequest downloadId) # ms) = downloadId # requested_ids ms"
| "requested_ids (m # ms) = requested_ids ms"

fun request_times :: "event list \<Rightarrow> int list" where
  "request_times [] = []"
| "request_times (Requested now clientId # evs) = now # request_times evs"
| "request_times (ev # evs) = request_times evs"

text \<open>Every download in the registry refers to a write stream that exists.\<close>

definition handles_valid :: "server \<Rightarrow> bool" where
  "handles_valid s \<longleftrightarrow>
     (\<forall>(k, c) \<in> set (clients s). \<forall>d. currentDownload c = Some d \<longrightarrow> stream d < length (streams s))"

text \<open>Decimal digits.\<close>

definition is_digit :: "char \<Rightarrow> bool" where
  "is_digit c \<longleftrightarrow> 48 \<le> (of_char c :: nat) \<and> (of_char c :: nat) \<le> 57"

section \<open>A small scenario\<close>

text \<open>
  One client, \<open>restaurant-1\<close>, on connection 7; a three-byte source file read in
  chunks of two bytes; and a transfer of which the first chunk has arrived.
\<close>

definition demo_env :: source_env where
  "demo_env = \<lparr>source_file = Some [1, 2, 3], open_error = None,
     read_error = (\<lambda>i. None), send_error = (\<lambda>i. False)\<rparr>"

definition demo_registered :: "event list" where
  "demo_registered = [Connected 7, Received 1000 7 (Some (Register ''restaurant-1''))]"

definition demo_transfer :: "event list" where
  "demo_transfer = demo_registered @
     [Requested 2000 ''restaurant-1'',
      Received 2001 7 (Some (FileChunk ''restaurant-1'' ''download_2000'' ''AQI='' 0))]"

definition demo_client :: client where
  "demo_client = \<lparr>ws = 7, client_id = ''restaurant-1'', connectedAt = 1000, currentDownload = None\<rparr>"

definition demo_download :: download where
  "demo_download = \<lparr>download_id = ''download_2000'',
     filePath = ''downloads/restaurant-1_download_2000_file_to_download.txt'',
     stream = 0, chunksReceived = 1, startTime = 2001\<rparr>"

section \<open>Lemmas on base64\<close>

lemma b64_value_char: "i < 64 \<Longrightarrow> b64_value (b64_char i) = Some i"
  by (auto simp: b64_value_def b64_char_def Let_def)

lemma b64_char_not_pad: "i < 64 \<Longrightarrow> b64_char i \<noteq> CHR ''=''"
proof
  assume i: "i < 64" and eq: "b64_char i = CHR ''=''"
  have "b64_value (CHR ''='') = None"
    by (simp add: b64_value_def)
  with b64_value_char [OF i] eq show False
    by simp
qed

lemma b64_sextets_char:
  "i < 64 \<Longrightarrow> b64_sextets (b64_char i # cs) = i # b64_sextets cs"
  by (simp add: b64_value_char b64_char_not_pad)

lemma byte_lt: "unat (a :: byte) < 256"
  using unsigned_less [of a, where ?'a = nat] by simp

lemma byte_hi: "unat (a :: byte) div 4 < 64"
  using byte_lt [of a] by simp

lemma byte_mid1: "(unat (a :: byte) mod 4) * 16 + unat (b :: byte) div 16 < 64"
proof -
  have "unat a mod 4 < 4" by simp
  moreover have "unat b div 16 < 16" using byte_lt [of b] by simp
  ultimately show ?thesis by linarith
qed

lemma byte_mid2: "(unat (b :: byte) mod 16) * 4 + unat (c :: byte) div 64 < 64"
proof -
  have "unat b mod 16 < 16" by simp
  moreover have "unat c div 64 < 4" using byte_lt [of c] by simp
  ultimately show ?thesis by linarith
qed

lemma byte_first:
  "(of_nat (unat (a :: byte) div 4 * 4 + (unat a mod 4 * 16 + unat (b :: byte) div 16) div 16) :: byte) = a"
proof -
  have "unat b div 16 < 16" using byte_lt [of b] by simp
  then have "(unat a mod 4 * 16 + unat b div 16) div 16 = unat a mod 4"
    by simp
  then show ?thesis by simp
qed

lemma byte_second:
  "(of_nat ((unat (a :: byte) mod 4 * 16 + unat (b :: byte) div 16) mod 16 * 16
       + (unat b mod 16 * 4 + unat (c :: byte) div 64) div 4) :: byte) = b"
proof -
  have c: "unat c div 64 < 4" using byte_lt [of c] by simp
  have b: "unat b div 16 < 16" using byte_lt [of b] by simp
  have "(unat a mod 4 * 16 + unat b div 16) mod 16 = unat b div 16"
    using b by simp
  moreover have "(unat b mod 16 * 4 + unat c div 64) div 4 = unat b mod 16"
    using c by simp
  ultimately show ?thesis by simp
qed

lemma byte_third:
  "(of_nat ((unat (b :: byte) mod 16 * 4 + unat (c :: byte) div 64) mod 4 * 64 + unat c mod 64) :: byte) = c"
proof -
  have c: "unat c div 64 < 4" using byte_lt [of c] by simp
  have "(unat b mod 16 * 4 + unat c div 64) mod 4 = unat c div 64"
    using c by simp
  then show ?thesis by simp
qed

lemma b64_group3:
  "b64_bytes (b64_sextets (b64_encode (a # b # c # rest))) =
     a # b # c # b64_bytes (b64_sextets (b64_encode rest))"
proof -
  have "b64_sextets (b64_encode (a # b # c # rest)) =
      (unat a div 4) # ((unat a mod 4) * 16 + unat b div 16) #
      ((unat b mod 16) * 4 + unat c div 64) # (unat c mod 64) # b64_sextets (b64_encode rest)"
    by (simp only: b64_encode.simps b64_sextets_char byte_hi byte_mid1 byte_mid2
        mod_less_divisor zero_less_numeral)
  then show ?thesis
    by (simp only: b64_bytes.simps byte_first byte_second byte_third)
qed

lemma b64_group2: "b64_bytes (b64_sextets (b64_encode [a, b])) = [a, b]"
proof -
  have l: "unat b mod 16 * 4 < 64"
  proof -
    have "unat b mod 16 < 16" by simp
    then show ?thesis by linarith
  qed
  have "b64_sextets [CHR ''=''] = []" by simp
  then have "b64_sextets (b64_encode [a, b]) =
      [unat a div 4, (unat a mod 4) * 16 + unat b div 16, (unat b mod 16) * 4]"
    by (simp only: b64_encode.simps b64_sextets_char byte_hi byte_mid1 l)
  moreover have "(of_nat ((unat a mod 4 * 16 + unat b div 16) mod 16 * 16
      + (unat b mod 16 * 4) div 4) :: byte) = b"
    using byte_second [of a b 0] by simp
  ultimately show ?thesis
    by (simp only: b64_bytes.simps byte_first)
qed

lemma b64_group1: "b64_bytes (b64_sextets (b64_encode [a])) = [a]"
proof -
  have l: "unat a mod 4 * 16 < 64"
  proof -
    have "unat a mod 4 < 4" by simp
    then show ?thesis by linarith
  qed
  have "b64_sextets [CHR ''='', CHR ''=''] = []" by simp
  then have "b64_sextets (b64_encode [a]) = [unat a div 4, (unat a mod 4) * 16]"
    by (simp only: b64_encode.simps b64_sextets_char byte_hi l)
  moreover have "(of_nat (unat a div 4 * 4 + (unat a mod 4 * 16) div 16) :: byte) = a"
    using byte_first [of a 0] by simp
  ultimately show ?thesis
    by (simp only: b64_bytes.simps)
qed

lemma b64_roundtrip: "b64_decode (b64_encode bs) = bs"
  unfolding b64_decode_def
proof (induction bs rule: b64_encode.induct)
  case (1 a b c rest)
  then show ?case by (simp only: b64_group3)
next
  case (2 a b)
  show ?case by (rule b64_group2)
next
  case (3 a)
  show ?case by (rule b64_group1)
next
  case 4
  show ?case by simp
qed

section \<open>Lemmas on the client\<close>

lemma read_chunks_Nil [simp]: "read_chunks n [] = []"
  by (simp add: read_chunks.simps)

lemma read_chunks_zero [simp]: "read_chunks 0 bs = []"
  by (simp add: read_chunks.simps)

lemma read_chunks_step:
  "0 < n \<Longrightarrow> bs \<noteq> [] \<Longrightarrow> read_chunks n bs = take n bs # read_chunks n (drop n bs)"
  by (subst read_chunks.simps) simp


lemma read_chunks_concat: "0 < n \<Longrightarrow> concat (read_chunks n bs) = bs"
proof (induction n bs rule: read_chunks.induct)
  case (1 n bs)
  show ?case
  proof (cases "bs = []")
    case True
    then show ?thesis by simp
  next
    case False
    with 1 have "concat (read_chunks n (drop n bs)) = drop n bs" by simp
    with False 1(2) show ?thesis
      by (simp add: read_chunks_step)
  qed
qed

lemma read_chunks_bounds:
  "c \<in> set (read_chunks n bs) \<Longrightarrow> 0 < length c \<and> length c \<le> n"
proof (induction n bs rule: read_chunks.induct)
  case (1 n bs)
  show ?case
  proof (cases "n = 0 \<or> bs = []")
    case True
    with 1(2) show ?thesis by auto
  next
    case False
    with 1(2) have "c = take n bs \<or> c \<in> set (read_chunks n (drop n bs))"
      by (simp add: read_chunks_step)
    then show ?thesis
    proof
      assume "c = take n bs"
      with False show ?thesis by (cases bs) auto
    next
      assume "c \<in> set (read_chunks n (drop n bs))"
      with 1(1) False show ?thesis by blast
    qed
  qed
qed

lemma read_chunks_length:
  "0 < n \<Longrightarrow> length (read_chunks n bs) = (length bs + n - 1) div n"
proof (induction n bs rule: read_chunks.induct)
  case (1 n bs)
  show ?case
  proof (cases "bs = []")
    case True
    with 1(2) show ?thesis by simp
  next
    case False
    then have pos: "0 < length bs" by simp
    have e: "length bs + n - 1 = n + (length bs - 1)" using pos by arith
    have d: "(n + (length bs - 1)) div n = (length bs - 1) div n + 1"
      using div_add_self1 [of n "length bs - 1"] 1(2) by simp
    have step: "length (read_chunks n bs) = Suc (length (read_chunks n (drop n bs)))"
      using False 1(2) by (simp add: read_chunks_step)
    have ih: "length (read_chunks n (drop n bs)) = (length (drop n bs) + n - 1) div n"
      using 1 False by simp
    have "length (drop n bs) + n - 1 = length bs - 1 \<or> length bs - 1 < n \<and> length (drop n bs) + n - 1 = n - 1"
    proof (cases "n \<le> length bs")
      case True
      then show ?thesis by simp
    next
      case False
      then have "length bs - 1 < n" by arith
      moreover have "length (drop n bs) + n - 1 = n - 1" using False by simp
      ultimately show ?thesis by blast
    qed
    then have "(length (drop n bs) + n - 1) div n = (length bs - 1) div n"
    proof
      assume "length (drop n bs) + n - 1 = length bs - 1"
      then show ?thesis by (simp only:)
    next
      assume a: "length bs - 1 < n \<and> length (drop n bs) + n - 1 = n - 1"
      then have "(length bs - 1) div n = 0" by (simp only: div_less)
      moreover have "(n - 1) div n = 0" using 1(2) by (intro div_less) arith
      ultimately show ?thesis using a by (simp only:)
    qed
    with step ih d e show ?thesis by (simp only: Suc_eq_plus1)
  qed
qed

lemma ten_mebibytes:
  "length B = 10485760 \<Longrightarrow> length (read_chunks (64 * 1024) B) = 160"
  by (simp add: read_chunks_length)

lemma CHUNK_SIZE_pos: "0 < CHUNK_SIZE env"
  by (simp add: CHUNK_SIZE_def split: option.splits)

lemma stream_events_ok:
  "\<forall>i. read_error e i = None \<Longrightarrow> \<forall>i. \<not> send_error e i \<Longrightarrow>
   stream_events e cid did fsz i cs =
     map (\<lambda>(k, c). FileChunk cid did (b64_encode c) k) (enumerate i cs) @
     [FileComplete cid did (i + length cs) fsz]"
  by (induction cs arbitrary: i) simp_all

lemma chunk_indices_enumerate:
  "List.map_filter chunkIndex_of
     (map (\<lambda>(k, c). FileChunk cid did (b64_encode c) k) (enumerate i cs) @ [FileComplete cid did n fsz])
     = [i..<i + length cs]"
proof (induction cs arbitrary: i)
  case Nil
  then show ?case by (simp add: List.map_filter_simps)
next
  case (Cons c cs)
  have "[i..<i + length (c # cs)] = i # [Suc i..<Suc i + length cs]"
    by (subst upt_rec) simp
  with Cons [of "Suc i"] show ?case by (simp add: List.map_filter_simps)
qed

section \<open>Lemmas on the server\<close>

lemma stream_write_twice:
  "stream_write h b2 (stream_write h b1 ss) = stream_write h (b1 @ b2) ss"
  by (cases "h < length ss") (simp_all add: stream_write_def list_update_beyond not_less)

lemma stream_write_new:
  "stream_write (length ss) buf (ss @ [createWriteStream p]) =
     ss @ [\<lparr>path = p, written = buf, ended = False\<rparr>]"
  by (simp add: stream_write_def createWriteStream_def)

lemma stream_write_last:
  "stream_write (length ss) buf (ss @ [st]) = ss @ [st\<lparr>written := written st @ buf\<rparr>]"
  by (simp add: stream_write_def)

lemma stream_end_last:
  "stream_end (length ss) (ss @ [st]) = ss @ [st\<lparr>ended := True\<rparr>]"
  by (simp add: stream_end_def)

lemma handleFileChunk_unknown:
  assumes "map_of (clients s) cid = None"
  shows "handleFileChunk now cid did chunk idx s = s\<lparr>console := console s @ [ClientNotFound cid]\<rparr>"
  using assms by (simp add: handleFileChunk_def)

lemma handleFileChunk_current:
  assumes "map_of (clients s) cid = Some c" and "currentDownload c = Some d"
  shows "streams (handleFileChunk now cid did chunk idx s) =
           stream_write (stream d) (b64_decode chunk) (streams s)"
    and "clients (handleFileChunk now cid did chunk idx s) =
           AList.update cid (c\<lparr>currentDownload := Some (d\<lparr>chunksReceived := chunksReceived d + 1\<rparr>)\<rparr>)
             (clients s)"
    and "sent (handleFileChunk now cid did chunk idx s) = sent s"
    and "DOWNLOAD_DIR (handleFileChunk now cid did chunk idx s) = DOWNLOAD_DIR s"
  using assms by (simp_all add: handleFileChunk_def Let_def)

lemma handleFileChunk_first:
  assumes "map_of (clients s) cid = Some c" and "currentDownload c = None"
  shows "streams (handleFileChunk now cid did chunk idx s) =
           streams s @ [\<lparr>path = path_join (DOWNLOAD_DIR s) (fileName_of cid did),
                          written = b64_decode chunk, ended = False\<rparr>]"
    and "clients (handleFileChunk now cid did chunk idx s) =
           AList.update cid
             (c\<lparr>currentDownload := Some \<lparr>download_id = did,
                  filePath = path_join (DOWNLOAD_DIR s) (fileName_of cid did),
                  stream = length (streams s), chunksReceived = 1, startTime = now\<rparr>\<rparr>)
             (clients s)"
    and "sent (handleFileChunk now cid did chunk idx s) = sent s"
    and "DOWNLOAD_DIR (handleFileChunk now cid did chunk idx s) = DOWNLOAD_DIR s"
  using assms by (simp_all add: handleFileChunk_def Let_def stream_write_new)

lemma handleFileComplete_current:
  assumes "map_of (clients s) cid = Some c" and "currentDownload c = Some d"
  shows "streams (handleFileComplete now cid did n fsz s) = stream_end (stream d) (streams s)"
    and "clients (handleFileComplete now cid did n fsz s) =
           AList.update cid (c\<lparr>currentDownload := None\<rparr>) (clients s)"
    and "sent (handleFileComplete now cid did n fsz s) = sent s"
    and "DOWNLOAD_DIR (handleFileComplete now cid did n fsz s) = DOWNLOAD_DIR s"
  using assms by (simp_all add: handleFileComplete_def)

lemma handleFileComplete_idle:
  assumes "map_of (clients s) cid = Some c" and "currentDownload c = None"
  shows "handleFileComplete now cid did n fsz s = s"
  using assms by (simp add: handleFileComplete_def)

lemma handleFileComplete_unknown:
  assumes "map_of (clients s) cid = None"
  shows "handleFileComplete now cid did n fsz s = s\<lparr>console := console s @ [ClientNotFound cid]\<rparr>"
  using assms by (simp add: handleFileComplete_def)

lemma map_of_update_same: "map_of (AList.update k v al) k = Some v"
  by (simp add: update_conv')

lemma run_Nil: "run [] s = s"
  by (simp add: run_def)

lemma run_Cons: "run (ev # evs) s = run evs (step ev s)"
  by (simp add: run_def)

lemma run_append: "run (xs @ ys) s = run ys (run xs s)"
  by (simp add: run_def)

lemma arrivals_append:
  "arrivals at k (xs @ ys) = arrivals at k xs @ arrivals at (k + length xs) ys"
  by (induction xs arbitrary: k) simp_all

lemma run_chunks:
  assumes "map_of (clients s) cid = Some c" and "currentDownload c = Some d"
  shows "streams (run (arrivals at k (map (\<lambda>(i, b). FileChunk cid did (b64_encode b) i) (enumerate j cs))) s)
           = stream_write (stream d) (concat cs) (streams s)
       \<and> map_of (clients (run (arrivals at k (map (\<lambda>(i, b). FileChunk cid did (b64_encode b) i) (enumerate j cs))) s)) cid
           = Some (c\<lparr>currentDownload := Some (d\<lparr>chunksReceived := chunksReceived d + length cs\<rparr>)\<rparr>)
       \<and> DOWNLOAD_DIR (run (arrivals at k (map (\<lambda>(i, b). FileChunk cid did (b64_encode b) i) (enumerate j cs))) s)
           = DOWNLOAD_DIR s"
  using assms
proof (induction cs arbitrary: s c d k j)
  case Nil
  then show ?case
    by (simp add: run_Nil stream_write_def)
next
  case (Cons b cs)
  let ?s1 = "handleFileChunk (fst (at k)) cid did (b64_encode b) j s"
  let ?d1 = "d\<lparr>chunksReceived := chunksReceived d + 1\<rparr>"
  let ?c1 = "c\<lparr>currentDownload := Some ?d1\<rparr>"
  have s1: "streams ?s1 = stream_write (stream d) b (streams s)"
    using handleFileChunk_current(1) [OF Cons.prems] by (simp add: b64_roundtrip)
  have c1: "map_of (clients ?s1) cid = Some ?c1"
    using handleFileChunk_current(2) [OF Cons.prems] by (simp add: map_of_update_same)
  have d1: "DOWNLOAD_DIR ?s1 = DOWNLOAD_DIR s"
    using handleFileChunk_current(4) [OF Cons.prems] by simp
  have cd1: "currentDownload ?c1 = Some ?d1" by simp
  from Cons.IH [OF c1 cd1, of "Suc k" "Suc j"] s1 d1
  show ?case
    by (simp add: run_Cons on_message_def stream_write_twice)
qed

lemma read_chunks_empty_iff: "0 < n \<Longrightarrow> read_chunks n bs = [] \<longleftrightarrow> bs = []"
  by (cases "bs = []") (simp_all add: read_chunks_step)

lemma handleDownloadRequest_ok:
  assumes "source_file e = Some B" and "open_error e = None"
    and "\<forall>i. read_error e i = None" and "\<forall>i. \<not> send_error e i"
  shows "handleDownloadRequest e cid env did =
           map (\<lambda>(i, b). FileChunk cid did (b64_encode b) i)
             (enumerate 0 (read_chunks (CHUNK_SIZE env) B)) @
           [FileComplete cid did (length (read_chunks (CHUNK_SIZE env) B)) (length B)]"
  using assms by (simp add: handleDownloadRequest_def stream_events_ok)

lemma run_transfer:
  assumes reg: "map_of (clients s) cid = Some c" and idle: "currentDownload c = None"
  shows "streams (run (arrivals at k
            (map (\<lambda>(i, b). FileChunk cid did (b64_encode b) i) (enumerate j cs) @
             [FileComplete cid did n fsz])) s) =
         streams s @ (if cs = [] then []
            else [\<lparr>path = path_join (DOWNLOAD_DIR s) (fileName_of cid did),
                    written = concat cs, ended = True\<rparr>])"
proof (cases cs)
  case Nil
  then show ?thesis
    using handleFileComplete_idle [OF reg idle]
    by (simp add: run_Cons run_Nil on_message_def)
next
  case (Cons b cs')
  let ?p = "path_join (DOWNLOAD_DIR s) (fileName_of cid did)"
  let ?s1 = "handleFileChunk (fst (at k)) cid did (b64_encode b) j s"
  let ?d1 = "\<lparr>download_id = did, filePath = ?p, stream = length (streams s),
               chunksReceived = 1, startTime = fst (at k)\<rparr>"
  let ?c1 = "c\<lparr>currentDownload := Some ?d1\<rparr>"
  let ?rest = "arrivals at (Suc k) (map (\<lambda>(i, b). FileChunk cid did (b64_encode b) i) (enumerate (Suc j) cs'))"
  let ?s2 = "run ?rest ?s1"
  have s1: "streams ?s1 = streams s @ [\<lparr>path = ?p, written = b, ended = False\<rparr>]"
    using handleFileChunk_first(1) [OF reg idle] by (simp add: b64_roundtrip)
  have c1: "map_of (clients ?s1) cid = Some ?c1"
    using handleFileChunk_first(2) [OF reg idle] by (simp add: map_of_update_same)
  have cd1: "currentDownload ?c1 = Some ?d1" by simp
  from run_chunks [OF c1 cd1, of at "Suc k" did "Suc j" cs']
  have s2: "streams ?s2 = stream_write (length (streams s)) (concat cs') (streams ?s1)"
    and c2: "map_of (clients ?s2) cid =
       Some (?c1\<lparr>currentDownload := Some (?d1\<lparr>chunksReceived := chunksReceived ?d1 + length cs'\<rparr>)\<rparr>)"
    by simp_all
  have s2': "streams ?s2 = streams s @ [\<lparr>path = ?p, written = b @ concat cs', ended = False\<rparr>]"
    unfolding s2 s1 by (simp add: stream_write_last)
  let ?c2 = "?c1\<lparr>currentDownload := Some (?d1\<lparr>chunksReceived := chunksReceived ?d1 + length cs'\<rparr>)\<rparr>"
  have cd2: "currentDownload ?c2 = Some (?d1\<lparr>chunksReceived := chunksReceived ?d1 + length cs'\<rparr>)"
    by simp
  have fin: "streams (handleFileComplete t cid did n fsz ?s2) =
      streams s @ [\<lparr>path = ?p, written = b @ concat cs', ended = True\<rparr>]" for t
    using handleFileComplete_current(1) [OF c2 cd2, of t did n fsz]
    unfolding s2' by (simp add: stream_end_last)
  have eq: "run (arrivals at k
            (map (\<lambda>(i, b). FileChunk cid did (b64_encode b) i) (enumerate j (b # cs')) @
             [FileComplete cid did n fsz])) s =
        handleFileComplete (fst (at (Suc k + length cs'))) cid did n fsz ?s2"
    by (simp add: arrivals_append run_append run_Cons run_Nil on_message_def)
  have "streams (run (arrivals at k
            (map (\<lambda>(i, b). FileChunk cid did (b64_encode b) i) (enumerate j (b # cs')) @
             [FileComplete cid did n fsz])) s) =
        streams s @ [\<lparr>path = ?p, written = b @ concat cs', ended = True\<rparr>]"
    by (simp only: eq fin)
  then show ?thesis
    unfolding Cons by (simp only: list.simps if_False concat.simps)
qed

section \<open>Lemmas on identifiers\<close>

lemma digit_code: "d < 10 \<Longrightarrow> (of_char (char_of (48 + d) :: char) :: nat) = 48 + d"
  by simp

lemma show_nat_small: "n < 10 \<Longrightarrow> show_nat n = [char_of (48 + n)]"
  by (simp add: show_nat.simps)

lemma show_nat_big:
  "\<not> n < 10 \<Longrightarrow> show_nat n = show_nat (n div 10) @ [char_of (48 + n mod 10)]"
  by (subst show_nat.simps) simp

lemma show_nat_nonempty: "show_nat n \<noteq> []"
  by (cases "n < 10") (simp_all add: show_nat_small show_nat_big)

lemma digit_char_inj:
  assumes "a < 10" and "b < 10" and "(char_of (48 + a) :: char) = char_of (48 + b)"
  shows "a = (b :: nat)"
proof -
  from assms(3) have "(of_char (char_of (48 + a) :: char) :: nat) = of_char (char_of (48 + b) :: char)"
    by simp
  with assms(1,2) show ?thesis by (simp only: digit_code)
qed

lemma show_nat_inj: "show_nat n = show_nat m \<Longrightarrow> n = m"
proof (induction n arbitrary: m rule: show_nat.induct)
  case (1 n)
  show ?case
  proof (cases "n < 10")
    case small: True
    show ?thesis
    proof (cases "m < 10")
      case True
      with small 1(2) show ?thesis
        by (simp add: show_nat_small digit_char_inj)
    next
      case False
      with small 1(2) show_nat_nonempty [of "m div 10"] show ?thesis
        by (simp add: show_nat_small show_nat_big)
    qed
  next
    case big: False
    show ?thesis
    proof (cases "m < 10")
      case True
      with big 1(2) show_nat_nonempty [of "n div 10"] show ?thesis
        by (simp add: show_nat_small show_nat_big)
    next
      case False
      with big 1(2) have pre: "show_nat (n div 10) = show_nat (m div 10)"
        and last: "(char_of (48 + n mod 10) :: char) = char_of (48 + m mod 10)"
        by (simp_all add: show_nat_big)
      from 1(1) [OF big pre] have "n div 10 = m div 10" .
      moreover from last have "n mod 10 = m mod 10"
        by (intro digit_char_inj) simp_all
      ultimately show ?thesis
        by (metis div_mult_mod_eq)
    qed
  qed
qed

lemma show_nat_digits: "c \<in> set (show_nat n) \<Longrightarrow> is_digit c"
proof (induction n rule: show_nat.induct)
  case (1 n)
  show ?case
  proof (cases "n < 10")
    case True
    with 1(2) show ?thesis by (auto simp: show_nat_small is_digit_def)
  next
    case False
    with 1(2) have "c \<in> set (show_nat (n div 10)) \<or> c = char_of (48 + n mod 10)"
      by (auto simp: show_nat_big)
    then show ?thesis
    proof
      assume "c \<in> set (show_nat (n div 10))"
      with 1(1) False show ?thesis by blast
    next
      assume "c = char_of (48 + n mod 10)"
      then show ?thesis by (simp add: is_digit_def)
    qed
  qed
qed

lemma show_nat_no_minus: "show_nat n \<noteq> CHR ''-'' # cs"
proof
  assume "show_nat n = CHR ''-'' # cs"
  then have "CHR ''-'' \<in> set (show_nat n)" by simp
  then have "is_digit CHR ''-''" by (rule show_nat_digits)
  then show False by (simp add: is_digit_def)
qed

lemma show_nat_no_minus': "CHR ''-'' # cs \<noteq> show_nat n"
  using show_nat_no_minus [of n cs] by (rule not_sym)

lemma show_int_inj: "show_int i = show_int j \<Longrightarrow> i = j"
proof -
  assume eq: "show_int i = show_int j"
  show ?thesis
  proof (cases "i < 0")
    case ineg: True
    show ?thesis
    proof (cases "j < 0")
      case True
      with ineg eq have "show_nat (nat (- i)) = show_nat (nat (- j))"
        by (simp add: show_int_def)
      then have "nat (- i) = nat (- j)" by (rule show_nat_inj)
      with ineg True show ?thesis by simp
    next
      case False
      with ineg eq show ?thesis
        by (simp add: show_int_def show_nat_no_minus')
    qed
  next
    case ipos: False
    show ?thesis
    proof (cases "j < 0")
      case True
      with ipos eq show ?thesis
        by (simp add: show_int_def show_nat_no_minus)
    next
      case False
      with ipos eq have "show_nat (nat i) = show_nat (nat j)"
        by (simp add: show_int_def)
      then have "nat i = nat j" by (rule show_nat_inj)
      with ipos False show ?thesis by simp
    qed
  qed
qed

lemma show_int_no_underscore: "CHR ''_'' \<notin> set (show_int i)"
proof
  assume "CHR ''_'' \<in> set (show_int i)"
  then have "CHR ''_'' \<in> set (show_nat (nat (- i))) \<or> CHR ''_'' \<in> set (show_nat (nat i))"
    by (auto simp: show_int_def split: if_splits)
  then have "is_digit CHR ''_''" using show_nat_digits by blast
  then show False by (simp add: is_digit_def)
qed

lemma split_at_last:
  "x \<notin> set u \<Longrightarrow> x \<notin> set v \<Longrightarrow> a @ x # u = b @ x # v \<Longrightarrow> a = b \<and> u = v"
proof (induction a arbitrary: b)
  case Nil
  then show ?case by (cases b) auto
next
  case (Cons y a)
  show ?case
  proof (cases b)
    case Nil
    with Cons.prems show ?thesis by auto
  next
    case (Cons z b')
    with Cons.prems Cons.IH [of b'] show ?thesis by auto
  qed
qed

lemma new_downloadId_inj: "new_downloadId t1 = new_downloadId t2 \<longleftrightarrow> t1 = t2"
  by (auto simp: new_downloadId_def dest: show_int_inj)

lemma fileName_of_inj:
  "fileName_of c1 (new_downloadId t1) = fileName_of c2 (new_downloadId t2) \<longleftrightarrow> c1 = c2 \<and> t1 = t2"
proof
  assume eq: "fileName_of c1 (new_downloadId t1) = fileName_of c2 (new_downloadId t2)"
  then have "(c1 @ ''_download'') @ CHR ''_'' # show_int t1 = (c2 @ ''_download'') @ CHR ''_'' # show_int t2"
    by (simp add: fileName_of_def new_downloadId_def)
  from split_at_last [OF show_int_no_underscore show_int_no_underscore this]
  show "c1 = c2 \<and> t1 = t2"
    by (auto dest: show_int_inj)
next
  assume "c1 = c2 \<and> t1 = t2"
  then show "fileName_of c1 (new_downloadId t1) = fileName_of c2 (new_downloadId t2)" by simp
qed

section \<open>Lemmas on the registry\<close>

lemma delete_lookup: "map_of (AList.delete k al) k = None"
  by (simp add: delete_conv')

lemma find_update_first:
  assumes "\<forall>(k, c) \<in> set al. ws c = w \<longrightarrow> k = cid" and "ws v = w"
  shows "\<exists>c. find (\<lambda>(k, c). ws c = w) (AList.update cid v al) = Some (cid, c)"
  using assms
proof (induction al)
  case Nil
  then show ?case by simp
next
  case (Cons p al)
  then show ?case by (cases p) auto
qed

text \<open>
  Registration followed by the close of the same connection removes the entry when the
  connection holds no entry under another identifier.
\<close>

lemma register_then_close:
  assumes "\<forall>(k, c) \<in> set (clients s). ws c = w \<longrightarrow> k = cid"
  shows "map_of (clients (on_close w (handleClientRegistration now w cid s))) cid = None"
proof -
  let ?s1 = "handleClientRegistration now w cid s"
  let ?v = "\<lparr>ws = w, client_id = cid, connectedAt = now, currentDownload = None\<rparr>"
  have "clients ?s1 = AList.update cid ?v (clients s)"
    by (simp add: handleClientRegistration_def)
  with find_update_first [OF assms, of ?v]
  obtain c where "find (\<lambda>(k, c). ws c = w) (clients ?s1) = Some (cid, c)"
    by auto
  then show ?thesis
    by (simp add: on_close_def delete_lookup)
qed

section \<open>The streams of the downloads under way exist\<close>

text \<open>
  From the initial state on, every event keeps the references of the download records
  within the list of write streams, so that a write or an end does reach a stream.
\<close>

lemma set_update_subset: "set (AList.update k v al) \<subseteq> insert (k, v) (set al)"
  by (induction al) auto

lemma set_delete_subset: "set (AList.delete k al) \<subseteq> set al"
  by (auto simp: AList.delete_eq)

lemma length_stream_write [simp]: "length (stream_write h b ss) = length ss"
  by (simp add: stream_write_def)

lemma length_stream_end [simp]: "length (stream_end h ss) = length ss"
  by (simp add: stream_end_def)

lemma handles_validI:
  assumes "\<And>k c d. (k, c) \<in> set (clients s) \<Longrightarrow> currentDownload c = Some d \<Longrightarrow>
    stream d < length (streams s)"
  shows "handles_valid s"
  using assms by (auto simp: handles_valid_def)

lemma handles_validD:
  assumes "handles_valid s" and "(k, c) \<in> set (clients s)" and "currentDownload c = Some d"
  shows "stream d < length (streams s)"
  using assms by (auto simp: handles_valid_def)

lemma handles_valid_initial: "handles_valid (initial_server dir)"
  by (simp add: handles_valid_def initial_server_def)

lemma handles_valid_register:
  assumes "handles_valid s"
  shows "handles_valid (handleClientRegistration now w cid s)"
proof (rule handles_validI)
  fix k c d
  assume "(k, c) \<in> set (clients (handleClientRegistration now w cid s))"
    and d: "currentDownload c = Some d"
  then have "(k, c) \<in> insert (cid, \<lparr>ws = w, client_id = cid, connectedAt = now, currentDownload = None\<rparr>)
      (set (clients s))"
    using set_update_subset by (fastforce simp: handleClientRegistration_def)
  with d have "(k, c) \<in> set (clients s)" by auto
  with assms d show "stream d < length (streams (handleClientRegistration now w cid s))"
    by (auto simp: handleClientRegistration_def dest: handles_validD)
qed

lemma handles_valid_chunk:
  assumes "handles_valid s"
  shows "handles_valid (handleFileChunk now cid did chunk idx s)"
proof (cases "map_of (clients s) cid")
  case None
  with assms show ?thesis
    by (simp add: handleFileChunk_unknown handles_valid_def)
next
  case (Some c)
  then have mem: "(cid, c) \<in> set (clients s)" by (rule map_of_SomeD)
  show ?thesis
  proof (cases "currentDownload c")
    case None
    note first = handleFileChunk_first [OF Some None, of now did chunk idx]
    show ?thesis
    proof (rule handles_validI)
      fix k c' d
      assume "(k, c') \<in> set (clients (handleFileChunk now cid did chunk idx s))"
        and d: "currentDownload c' = Some d"
      then have "(k, c') \<in> set (clients s) \<or> stream d = length (streams s)"
        unfolding first(2) using set_update_subset [of cid _ "clients s"] by fastforce
      then show "stream d < length (streams (handleFileChunk now cid did chunk idx s))"
        unfolding first(1) using assms d by (auto dest: handles_validD)
    qed
  next
    case (Some dl)
    note cur = handleFileChunk_current [OF \<open>map_of (clients s) cid = Some c\<close> Some, of now did chunk idx]
    show ?thesis
    proof (rule handles_validI)
      fix k c' d
      assume "(k, c') \<in> set (clients (handleFileChunk now cid did chunk idx s))"
        and d: "currentDownload c' = Some d"
      then have "(k, c') \<in> set (clients s) \<or> stream d = stream dl"
        unfolding cur(2) using set_update_subset [of cid _ "clients s"] by fastforce
      then show "stream d < length (streams (handleFileChunk now cid did chunk idx s))"
        unfolding cur(1) using assms d mem Some by (auto dest: handles_validD)
    qed
  qed
qed

lemma handles_valid_complete:
  assumes "handles_valid s"
  shows "handles_valid (handleFileComplete now cid did n fsz s)"
proof (cases "map_of (clients s) cid")
  case None
  with assms show ?thesis
    by (simp add: handleFileComplete_unknown handles_valid_def)
next
  case (Some c)
  show ?thesis
  proof (cases "currentDownload c")
    case None
    with Some assms show ?thesis by (simp add: handleFileComplete_idle)
  next
    case (Some dl)
    note cur = handleFileComplete_current [OF \<open>map_of (clients s) cid = Some c\<close> Some, of now did n fsz]
    show ?thesis
    proof (rule handles_validI)
      fix k c' d
      assume "(k, c') \<in> set (clients (handleFileComplete now cid did n fsz s))"
        and d: "currentDownload c' = Some d"
      then have "(k, c') \<in> set (clients s)"
        unfolding cur(2) using set_update_subset [of cid _ "clients s"] by fastforce
      then show "stream d < length (streams (handleFileComplete now cid did n fsz s))"
        unfolding cur(1) using assms d by (auto dest: handles_validD)
    qed
  qed
qed

lemma handles_valid_close:
  assumes "handles_valid s"
  shows "handles_valid (on_close w s)"
  using assms set_delete_subset
  by (fastforce simp: on_close_def handles_valid_def split: option.splits)

lemma handles_valid_request:
  assumes "handles_valid s"
  shows "handles_valid (snd (requestFileDownload now cid s))"
  using assms
  by (auto simp: requestFileDownload_def handles_valid_def Let_def split: option.splits)

lemma handles_valid_step:
  assumes "handles_valid s"
  shows "handles_valid (step ev s)"
proof (cases ev)
  case (Connected w)
  with assms show ?thesis by (simp add: handles_valid_def)
next
  case (Received now w m)
  show ?thesis
  proof (cases m)
    case None
    with Received assms show ?thesis by (simp add: on_message_def handles_valid_def)
  next
    case (Some msg)
    with Received assms show ?thesis
      by (cases msg)
        (simp_all add: on_message_def handles_valid_register handles_valid_chunk
          handles_valid_complete handleClientError_def, simp_all add: handles_valid_def)
  qed
next
  case (Closed w)
  with assms show ?thesis by (simp add: handles_valid_close)
next
  case (Requested now cid)
  with assms show ?thesis by (simp add: handles_valid_request)
qed

lemma handles_valid_run:
  "handles_valid s \<Longrightarrow> handles_valid (run evs s)"
  by (induction evs arbitrary: s) (simp_all add: run_Nil run_Cons handles_valid_step)

lemma handles_valid_reachable: "handles_valid (run evs (initial_server dir))"
  by (rule handles_valid_run) (rule handles_valid_initial)

section \<open>Lemmas on paths\<close>

text \<open>
  A file name that ends in a part without slashes and with an underscore keeps that
  part, unchanged, at the end of the joined path.
\<close>

lemma split_slash_nonempty: "split_slash p \<noteq> []"
  by (induction p) (auto split: list.splits)

lemma split_slash_plain: "CHR ''/'' \<notin> set y \<Longrightarrow> split_slash y = [y]"
  by (induction y) auto

lemma split_slash_append:
  "CHR ''/'' \<notin> set y \<Longrightarrow>
   split_slash (x @ y) = butlast (split_slash x) @ [last (split_slash x) @ y]"
proof (induction x)
  case Nil
  then show ?case by (simp add: split_slash_plain)
next
  case (Cons c x)
  then show ?case
    using split_slash_nonempty [of x]
    by (cases "split_slash x") (auto split: list.splits)
qed

lemma join_slash_snoc:
  "join_slash (segs @ [seg]) = (if segs = [] then seg else join_slash segs @ ''/'' @ seg)"
  by (induction segs rule: join_slash.induct) auto

lemma normalize_segment_plain:
  "CHR ''_'' \<in> set seg \<Longrightarrow> normalize_segment up res seg = seg # res"
  by (auto simp: normalize_segment_def)

lemma normalizeString_prefix:
  "\<exists>q. \<forall>y. CHR ''/'' \<notin> set y \<and> CHR ''_'' \<in> set y \<longrightarrow> normalizeString (x @ y) up = q @ y"
proof -
  let ?segs = "split_slash x"
  let ?res = "foldl (normalize_segment up) [] (butlast ?segs)"
  let ?q = "if rev ?res = [] then last ?segs else join_slash (rev ?res) @ ''/'' @ last ?segs"
  have "normalizeString (x @ y) up = ?q @ y" if "CHR ''/'' \<notin> set y" and "CHR ''_'' \<in> set y" for y
  proof -
    have "foldl (normalize_segment up) [] (split_slash (x @ y)) = (last ?segs @ y) # ?res"
      using that by (simp add: split_slash_append normalize_segment_plain)
    then show ?thesis
      by (simp add: normalizeString_def join_slash_snoc)
  qed
  then show ?thesis by blast
qed

lemma normalize_prefix:
  "\<exists>q. \<forall>y. CHR ''/'' \<notin> set y \<and> CHR ''_'' \<in> set y \<longrightarrow> normalize (x @ y) = q @ y"
proof -
  let ?abs = "x \<noteq> [] \<and> hd x = CHR ''/''"
  obtain q where q: "\<And>y. CHR ''/'' \<notin> set y \<Longrightarrow> CHR ''_'' \<in> set y \<Longrightarrow>
      normalizeString (x @ y) (\<not> ?abs) = q @ y"
    using normalizeString_prefix [of x "\<not> ?abs"] by blast
  have "normalize (x @ y) = ((if ?abs then ''/'' else []) @ q) @ y"
    if y: "CHR ''/'' \<notin> set y" "CHR ''_'' \<in> set y" for y
  proof -
    from y(2) have ne: "y \<noteq> []" by auto
    with y(1) have l: "last (x @ y) \<noteq> CHR ''/''"
      by (metis last_in_set last_appendR)
    from ne y(1) have "hd y \<noteq> CHR ''/''"
      by (metis hd_in_set)
    with ne have h: "(hd (x @ y) = CHR ''/'') = ?abs"
      by (cases x) auto
    from q [OF y] h l ne show ?thesis
      by (auto simp: normalize_def Let_def)
  qed
  then show ?thesis by blast
qed

lemma path_join_prefix:
  "\<exists>q. \<forall>y. CHR ''/'' \<notin> set y \<and> CHR ''_'' \<in> set y \<longrightarrow> path_join dir (c @ y) = q @ y"
proof (cases "dir = []")
  case True
  obtain q where "\<forall>y. CHR ''/'' \<notin> set y \<and> CHR ''_'' \<in> set y \<longrightarrow> normalize (c @ y) = q @ y"
    using normalize_prefix by blast
  with True have "\<forall>y. CHR ''/'' \<notin> set y \<and> CHR ''_'' \<in> set y \<longrightarrow> path_join dir (c @ y) = q @ y"
    by (auto simp: path_join_def)
  then show ?thesis by blast
next
  case False
  obtain q where "\<forall>y. CHR ''/'' \<notin> set y \<and> CHR ''_'' \<in> set y \<longrightarrow>
      normalize ((dir @ ''/'' @ c) @ y) = q @ y"
    using normalize_prefix by blast
  with False have "\<forall>y. CHR ''/'' \<notin> set y \<and> CHR ''_'' \<in> set y \<longrightarrow> path_join dir (c @ y) = q @ y"
    by (auto simp: path_join_def)
  then show ?thesis by blast
qed

lemma show_int_chars: "x \<in> set (show_int i) \<Longrightarrow> is_digit x \<or> x = CHR ''-''"
  using show_nat_digits by (auto simp: show_int_def split: if_splits)

lemma show_int_no_slash: "CHR ''/'' \<notin> set (show_int i)"
proof
  assume "CHR ''/'' \<in> set (show_int i)"
  then have "is_digit CHR ''/'' \<or> CHR ''/'' = CHR ''-''" by (rule show_int_chars)
  then show False by (simp add: is_digit_def)
qed

lemma new_downloadId_no_slash: "CHR ''/'' \<notin> set (new_downloadId t)"
  using show_int_no_slash [of t] by (simp add: new_downloadId_def)

lemma session_path_form:
  "\<exists>q. path_join dir (fileName_of c (new_downloadId t)) =
     q @ ''_download_'' @ show_int t @ ''_file_to_download.txt''"
proof -
  let ?y = "''_download_'' @ show_int t @ ''_file_to_download.txt''"
  have "CHR ''/'' \<notin> set ?y" using show_int_no_slash [of t] by simp
  moreover have "CHR ''_'' \<in> set ?y" by simp
  ultimately obtain q where "path_join dir (c @ ?y) = q @ ?y"
    using path_join_prefix [of dir c] by blast
  then show ?thesis
    by (auto simp: fileName_of_def new_downloadId_def)
qed

lemma session_path_inj:
  assumes "path_join d1 (fileName_of c1 (new_downloadId t1)) =
           path_join d2 (fileName_of c2 (new_downloadId t2))"
  shows "t1 = t2"
proof -
  obtain q1 where q1: "path_join d1 (fileName_of c1 (new_downloadId t1)) =
      q1 @ ''_download_'' @ show_int t1 @ ''_file_to_download.txt''"
    using session_path_form by blast
  obtain q2 where q2: "path_join d2 (fileName_of c2 (new_downloadId t2)) =
      q2 @ ''_download_'' @ show_int t2 @ ''_file_to_download.txt''"
    using session_path_form by blast
  from assms q1 q2
  have "(q1 @ ''_download_'' @ show_int t1) @ ''_file_to_download.txt'' =
        (q2 @ ''_download_'' @ show_int t2) @ ''_file_to_download.txt''"
    by simp
  then have "q1 @ ''_download_'' @ show_int t1 = q2 @ ''_download_'' @ show_int t2"
    by (simp only: append_same_eq)
  then have "(q1 @ ''_download'') @ CHR ''_'' # show_int t1 = (q2 @ ''_download'') @ CHR ''_'' # show_int t2"
    by simp
  from split_at_last [OF show_int_no_underscore show_int_no_underscore this]
  show ?thesis by (auto dest: show_int_inj)
qed

lemma plain_client_paths:
  assumes "CHR ''/'' \<notin> set c1" and "CHR ''/'' \<notin> set c2"
  shows "path_join dir (fileName_of c1 (new_downloadId t1)) =
         path_join dir (fileName_of c2 (new_downloadId t2)) \<longleftrightarrow> c1 = c2 \<and> t1 = t2"
proof -
  obtain q where q: "\<And>y. CHR ''/'' \<notin> set y \<Longrightarrow> CHR ''_'' \<in> set y \<Longrightarrow> path_join dir ([] @ y) = q @ y"
    using path_join_prefix [of dir "[]"] by blast
  have f1: "CHR ''/'' \<notin> set (fileName_of c1 (new_downloadId t1))"
    and u1: "CHR ''_'' \<in> set (fileName_of c1 (new_downloadId t1))"
    using assms(1) new_downloadId_no_slash [of t1] by (simp_all add: fileName_of_def)
  have f2: "CHR ''/'' \<notin> set (fileName_of c2 (new_downloadId t2))"
    and u2: "CHR ''_'' \<in> set (fileName_of c2 (new_downloadId t2))"
    using assms(2) new_downloadId_no_slash [of t2] by (simp_all add: fileName_of_def)
  have "path_join dir (fileName_of c1 (new_downloadId t1)) = q @ fileName_of c1 (new_downloadId t1)"
    using q [OF f1 u1] by simp
  moreover
  have "path_join dir (fileName_of c2 (new_downloadId t2)) = q @ fileName_of c2 (new_downloadId t2)"
    using q [OF f2 u2] by simp
  ultimately show ?thesis
    by (simp add: fileName_of_inj)
qed

section \<open>Lemmas on requests and on chunk messages in a row\<close>

lemma requested_ids_append: "requested_ids (xs @ ys) = requested_ids xs @ requested_ids ys"
  by (induction xs rule: requested_ids.induct) simp_all

lemma sent_handleFileChunk: "sent (handleFileChunk now cid did chunk idx s) = sent s"
proof (cases "map_of (clients s) cid")
  case None
  then show ?thesis by (simp add: handleFileChunk_unknown)
next
  case (Some c)
  then show ?thesis
    by (cases "currentDownload c") (simp_all add: handleFileChunk_first handleFileChunk_current)
qed

lemma sent_handleFileComplete: "sent (handleFileComplete now cid did n fsz s) = sent s"
proof (cases "map_of (clients s) cid")
  case None
  then show ?thesis by (simp add: handleFileComplete_unknown)
next
  case (Some c)
  then show ?thesis
    by (cases "currentDownload c") (simp_all add: handleFileComplete_idle handleFileComplete_current)
qed

lemma requested_ids_on_message:
  "requested_ids (sent (on_message now w m s)) = requested_ids (sent s)"
proof (cases m)
  case None
  then show ?thesis by (simp add: on_message_def)
next
  case (Some msg)
  then show ?thesis
    by (cases msg)
      (simp_all add: on_message_def handleClientRegistration_def requested_ids_append
        sent_handleFileChunk sent_handleFileComplete handleClientError_def)
qed

lemma requested_ids_step:
  "set (requested_ids (sent (step ev s))) \<subseteq>
     set (requested_ids (sent s)) \<union> new_downloadId ` set (request_times [ev])"
proof (cases ev)
  case (Connected w)
  then show ?thesis by simp
next
  case (Received now w m)
  then show ?thesis by (simp add: requested_ids_on_message)
next
  case (Closed w)
  then show ?thesis by (simp add: on_close_def split: option.splits)
next
  case (Requested now cid)
  then show ?thesis
    by (cases "map_of (clients s) cid")
      (auto simp: requestFileDownload_def Let_def requested_ids_append)
qed

lemma request_times_Cons:
  "set (request_times (ev # evs)) = set (request_times [ev]) \<union> set (request_times evs)"
  by (cases ev) simp_all

lemma requested_ids_run:
  "set (requested_ids (sent (run evs s))) \<subseteq>
     set (requested_ids (sent s)) \<union> new_downloadId ` set (request_times evs)"
proof (induction evs arbitrary: s)
  case Nil
  then show ?case by (simp add: run_Nil)
next
  case (Cons ev evs)
  have "set (requested_ids (sent (run (ev # evs) s))) \<subseteq>
      set (requested_ids (sent (step ev s))) \<union> new_downloadId ` set (request_times evs)"
    using Cons.IH [of "step ev s"] by (simp only: run_Cons)
  with requested_ids_step [of ev s] request_times_Cons [of ev evs]
  show ?case by blast
qed

lemma fresh_identifier:
  assumes "now \<notin> set (request_times evs)"
  shows "new_downloadId now \<notin> set (requested_ids (sent (run evs (initial_server dir))))"
proof
  assume "new_downloadId now \<in> set (requested_ids (sent (run evs (initial_server dir))))"
  with requested_ids_run [of evs "initial_server dir"]
  have "new_downloadId now \<in> new_downloadId ` set (request_times evs)"
    by (auto simp: initial_server_def)
  then obtain t where "t \<in> set (request_times evs)" and "new_downloadId now = new_downloadId t"
    by blast
  with assms show False by (simp add: new_downloadId_inj)
qed

lemma handle_of_request:
  "fst (requestFileDownload now cid s) = Inr h \<Longrightarrow> handle_downloadId h = new_downloadId now"
  by (cases "map_of (clients s) cid") (auto simp: requestFileDownload_def Let_def)

lemma run_chunk_messages:
  assumes "map_of (clients s) cid = Some c" and "currentDownload c = Some d"
  shows "streams (run (arrivals at k (map (\<lambda>(did, chunk, idx). FileChunk cid did chunk idx) ms)) s)
           = stream_write (stream d) (concat (map (\<lambda>(did, chunk, idx). b64_decode chunk) ms)) (streams s)
       \<and> map_of (clients (run (arrivals at k (map (\<lambda>(did, chunk, idx). FileChunk cid did chunk idx) ms)) s)) cid
           = Some (c\<lparr>currentDownload := Some (d\<lparr>chunksReceived := chunksReceived d + length ms\<rparr>)\<rparr>)
       \<and> DOWNLOAD_DIR (run (arrivals at k (map (\<lambda>(did, chunk, idx). FileChunk cid did chunk idx) ms)) s)
           = DOWNLOAD_DIR s"
  using assms
proof (induction ms arbitrary: s c d k)
  case Nil
  then show ?case
    by (simp add: run_Nil stream_write_def)
next
  case (Cons m ms)
  obtain did chunk idx where m: "m = (did, chunk, idx)" by (cases m)
  let ?s1 = "handleFileChunk (fst (at k)) cid did chunk idx s"
  let ?d1 = "d\<lparr>chunksReceived := chunksReceived d + 1\<rparr>"
  let ?c1 = "c\<lparr>currentDownload := Some ?d1\<rparr>"
  have s1: "streams ?s1 = stream_write (stream d) (b64_decode chunk) (streams s)"
    using handleFileChunk_current(1) [OF Cons.prems] by simp
  have c1: "map_of (clients ?s1) cid = Some ?c1"
    using handleFileChunk_current(2) [OF Cons.prems] by (simp add: map_of_update_same)
  have d1: "DOWNLOAD_DIR ?s1 = DOWNLOAD_DIR s"
    using handleFileChunk_current(4) [OF Cons.prems] by simp
  have cd1: "currentDownload ?c1 = Some ?d1" by simp
  from Cons.IH [OF c1 cd1, of "Suc k"] s1 d1
  show ?case
    unfolding m by (simp add: run_Cons on_message_def stream_write_twice)
qed

lemma run_complete_after:
  "run (arrivals at k (ms @ [FileComplete cid did n fsz])) s =
     handleFileComplete (fst (at (k + length ms))) cid did n fsz (run (arrivals at k ms) s)"
  by (simp add: arrivals_append run_append run_Cons run_Nil on_message_def)

lemma requestFileDownload_registered:
  assumes "map_of (clients s) cid = Some c"
  shows "fst (requestFileDownload now cid s) =
           Inr \<lparr>handle_clientId = cid, handle_downloadId = new_downloadId now,
                handle_status = ''initiated''\<rparr>"
    and "clients (snd (requestFileDownload now cid s)) = clients s"
    and "streams (snd (requestFileDownload now cid s)) = streams s"
    and "DOWNLOAD_DIR (snd (requestFileDownload now cid s)) = DOWNLOAD_DIR s"
  using assms by (simp_all add: requestFileDownload_def Let_def)

section \<open>Round trip and ordering of a transfer\<close>

text \<open>
  Claim C1 (round-trip integrity). Let the file at \<open>FILE_PATH\<close> hold the bytes \<open>B\<close>
  and let neither the file system nor \<open>ws.send\<close> report an error. The client reads
  \<open>B\<close> in chunks of at most \<open>CHUNK_SIZE\<close> bytes and sends each one base64-encoded in
  a \<open>file-chunk\<close> message, then \<open>file-complete\<close>. When these messages arrive in the
  order sent (at any times, on any connection) at a server where the client is
  registered and has no download under way, the server opens one more write stream,
  at the path made of the client and download identifiers, and the bytes written to it
  are exactly \<open>B\<close>; the stream is ended. For an empty file no stream is opened at all.
  Decoding the encoded chunks and appending them gives \<open>B\<close> back.
\<close>

theorem roundtrip_integrity:
  assumes "source_file e = Some B" and "open_error e = None"
    and "\<forall>i. read_error e i = None" and "\<forall>i. \<not> send_error e i"
    and "map_of (clients s) cid = Some c" and "currentDownload c = None"
  shows "streams (run (arrivals at k (handleDownloadRequest e cid env did)) s) =
           streams s @ (if B = [] then []
              else [\<lparr>path = path_join (DOWNLOAD_DIR s) (fileName_of cid did),
                      written = B, ended = True\<rparr>])
         \<and> (\<forall>b \<in> set (read_chunks (CHUNK_SIZE env) B). length b \<le> CHUNK_SIZE env)
         \<and> concat (map b64_decode (map b64_encode (read_chunks (CHUNK_SIZE env) B))) = B"
proof -
  have "streams (run (arrivals at k (handleDownloadRequest e cid env did)) s) =
           streams s @ (if B = [] then []
              else [\<lparr>path = path_join (DOWNLOAD_DIR s) (fileName_of cid did),
                      written = B, ended = True\<rparr>])"
    unfolding handleDownloadRequest_ok [OF assms(1-4)] run_transfer [OF assms(5,6)]
    by (simp add: read_chunks_empty_iff CHUNK_SIZE_pos read_chunks_concat)
  moreover have "\<forall>b \<in> set (read_chunks (CHUNK_SIZE env) B). length b \<le> CHUNK_SIZE env"
    using read_chunks_bounds by blast
  moreover have "concat (map b64_decode (map b64_encode (read_chunks (CHUNK_SIZE env) B))) = B"
    by (simp add: o_def b64_roundtrip read_chunks_concat CHUNK_SIZE_pos)
  ultimately show ?thesis by blast
qed

theorem roundtrip_integrity_witness:
  "streams (run (arrivals (\<lambda>k. (2001 + int k, 7)) 0
       (handleDownloadRequest demo_env ''restaurant-1'' (Some 2) ''download_2000''))
     (run demo_registered (initial_server ''downloads''))) =
   [\<lparr>path = ''downloads/restaurant-1_download_2000_file_to_download.txt'',
      written = [1, 2, 3], ended = True\<rparr>]"
proof -
  have h1: "source_file demo_env = Some [1, 2, 3]" and h2: "open_error demo_env = None"
    and h3: "\<forall>i. read_error demo_env i = None" and h4: "\<forall>i. \<not> send_error demo_env i"
    by (simp_all add: demo_env_def)
  have h5: "map_of (clients (run demo_registered (initial_server ''downloads''))) ''restaurant-1'' =
      Some demo_client"
    by code_simp
  have h6: "currentDownload demo_client = None"
    by (simp add: demo_client_def)
  have ev: "streams (run demo_registered (initial_server ''downloads'')) = []"
    "path_join (DOWNLOAD_DIR (run demo_registered (initial_server ''downloads'')))
       (fileName_of ''restaurant-1'' ''download_2000'') =
     ''downloads/restaurant-1_download_2000_file_to_download.txt''"
    by code_simp+
  from roundtrip_integrity [OF h1 h2 h3 h4 h5 h6, of "\<lambda>k. (2001 + int k, 7)" 0 "Some 2" "''download_2000''"]
  show ?thesis
    unfolding ev by simp
qed

text \<open>
  Claim C2 (ordering). With the file holding \<open>B\<close> and no error reported, the client
  sends one \<open>file-chunk\<close> message per chunk read, the \<open>i\<close>-th (from 0) carrying
  \<open>chunkIndex = i\<close>, and then one \<open>file-complete\<close> message whose \<open>totalChunks\<close> is
  the number of chunks and whose \<open>fileSize\<close> is the length of \<open>B\<close>. The indices sent
  are \<open>0, 1, ..., n - 1\<close>, where \<open>n\<close> is the length of \<open>B\<close> divided by \<open>CHUNK_SIZE\<close>,
  rounded up. An empty file gives \<open>file-complete\<close> with 0 chunks and 0 bytes and
  nothing before it.
\<close>

theorem sender_sequence:
  assumes "source_file e = Some B" and "open_error e = None"
    and "\<forall>i. read_error e i = None" and "\<forall>i. \<not> send_error e i"
  shows "handleDownloadRequest e cid env did =
           map (\<lambda>(i, b). FileChunk cid did (b64_encode b) i)
             (enumerate 0 (read_chunks (CHUNK_SIZE env) B)) @
           [FileComplete cid did (length (read_chunks (CHUNK_SIZE env) B)) (length B)]
       \<and> List.map_filter chunkIndex_of (handleDownloadRequest e cid env did) =
           [0..<length (read_chunks (CHUNK_SIZE env) B)]
       \<and> length (read_chunks (CHUNK_SIZE env) B) =
           (length B + CHUNK_SIZE env - 1) div CHUNK_SIZE env
       \<and> (B = [] \<longrightarrow> handleDownloadRequest e cid env did = [FileComplete cid did 0 0])"
proof -
  note ok = handleDownloadRequest_ok [OF assms]
  have "List.map_filter chunkIndex_of (handleDownloadRequest e cid env did) =
           [0..<length (read_chunks (CHUNK_SIZE env) B)]"
    unfolding ok using chunk_indices_enumerate [of cid did 0] by simp
  moreover have "B = [] \<Longrightarrow> handleDownloadRequest e cid env did = [FileComplete cid did 0 0]"
    unfolding ok by simp
  ultimately show ?thesis
    using ok read_chunks_length [OF CHUNK_SIZE_pos, of env B] by simp
qed

theorem sender_sequence_witness:
  "handleDownloadRequest demo_env ''restaurant-1'' (Some 2) ''download_2000'' =
     [FileChunk ''restaurant-1'' ''download_2000'' ''AQI='' 0,
      FileChunk ''restaurant-1'' ''download_2000'' ''Aw=='' 1,
      FileComplete ''restaurant-1'' ''download_2000'' 2 3]
   \<and> List.map_filter chunkIndex_of
        (handleDownloadRequest demo_env ''restaurant-1'' (Some 2) ''download_2000'') = [0, 1]
   \<and> handleDownloadRequest (demo_env\<lparr>source_file := Some []\<rparr>) ''restaurant-1'' None ''download_2000'' =
     [FileComplete ''restaurant-1'' ''download_2000'' 0 0]"
proof -
  have e1: "source_file (demo_env\<lparr>source_file := Some []\<rparr>) = Some []"
    and e2: "open_error (demo_env\<lparr>source_file := Some []\<rparr>) = None"
    and e3: "\<forall>i. read_error (demo_env\<lparr>source_file := Some []\<rparr>) i = None"
    and e4: "\<forall>i. \<not> send_error (demo_env\<lparr>source_file := Some []\<rparr>) i"
    by (simp_all add: demo_env_def)
  from sender_sequence [OF e1 e2 e3 e4, of "''restaurant-1''" None "''download_2000''"]
  have empty: "handleDownloadRequest (demo_env\<lparr>source_file := Some []\<rparr>) ''restaurant-1'' None
      ''download_2000'' = [FileComplete ''restaurant-1'' ''download_2000'' 0 0]"
    by blast
  have h1: "source_file demo_env = Some [1, 2, 3]" and h2: "open_error demo_env = None"
    and h3: "\<forall>i. read_error demo_env i = None" and h4: "\<forall>i. \<not> send_error demo_env i"
    by (simp_all add: demo_env_def)
  have ev: "read_chunks (CHUNK_SIZE (Some 2)) [1, 2, 3 :: byte] = [[1, 2], [3]]"
    "b64_encode [1, 2] = ''AQI=''" "b64_encode [3] = ''Aw==''"
    by code_simp+
  from sender_sequence [OF h1 h2 h3 h4, of "''restaurant-1''" "Some 2" "''download_2000''"]
  show ?thesis
    using empty by (simp add: ev enumerate_eq_zip upt_rec del: b64_encode.simps)
qed

section \<open>Requests\<close>

text \<open>
  Claim C3, as the code has it. \<open>requestFileDownload\<close> is rejected with
  \<open>ClientNotConnected\<close> exactly when \<open>clients\<close> has no entry for the identifier, and
  then the server state is as before. When there is an entry, the call hands exactly
  one \<open>download-request\<close>, carrying the identifier \<open>download_<clock reading>\<close>, to
  \<open>send\<close> of the connection of that entry and resolves to the handle
  \<open>{clientId, downloadId, status: 'initiated'}\<close>; the registry and the write streams
  are as before, and no message of the client is waited for: the result depends on the
  state at the call alone. The identifier is the same as that of another request
  exactly when the clock reads the same at both; so it is fresh, not among the
  identifiers sent before, in every history from the initial state in which no request
  was made at the same clock reading.
\<close>

theorem requestFileDownload_contract:
  "(fst (requestFileDownload now clientId s) = Inl (ClientNotConnected clientId)
      \<longleftrightarrow> map_of (clients s) clientId = None)
   \<and> (isl (fst (requestFileDownload now clientId s)) \<longleftrightarrow> map_of (clients s) clientId = None)
   \<and> (map_of (clients s) clientId = None \<longrightarrow> snd (requestFileDownload now clientId s) = s)
   \<and> (\<forall>c. map_of (clients s) clientId = Some c \<longrightarrow>
         fst (requestFileDownload now clientId s) =
           Inr \<lparr>handle_clientId = clientId, handle_downloadId = new_downloadId now,
                handle_status = ''initiated''\<rparr>
         \<and> sent (snd (requestFileDownload now clientId s)) =
             sent s @ [(ws c, DownloadRequest (new_downloadId now))]
         \<and> clients (snd (requestFileDownload now clientId s)) = clients s
         \<and> streams (snd (requestFileDownload now clientId s)) = streams s)
   \<and> (\<forall>h now' clientId' s' h'.
         fst (requestFileDownload now clientId s) = Inr h \<and>
         fst (requestFileDownload now' clientId' s') = Inr h' \<longrightarrow>
         (handle_downloadId h = handle_downloadId h' \<longleftrightarrow> now = now'))
   \<and> (\<forall>evs dir. s = run evs (initial_server dir) \<and> now \<notin> set (request_times evs) \<longrightarrow>
         new_downloadId now \<notin> set (requested_ids (sent s)))"
proof -
  have "\<forall>h now' clientId' s' h'.
         fst (requestFileDownload now clientId s) = Inr h \<and>
         fst (requestFileDownload now' clientId' s') = Inr h' \<longrightarrow>
         (handle_downloadId h = handle_downloadId h' \<longleftrightarrow> now = now')"
    by (auto dest!: handle_of_request simp: new_downloadId_inj)
  moreover have "\<forall>evs dir. s = run evs (initial_server dir) \<and> now \<notin> set (request_times evs) \<longrightarrow>
         new_downloadId now \<notin> set (requested_ids (sent s))"
    using fresh_identifier by blast
  moreover have "(fst (requestFileDownload now clientId s) = Inl (ClientNotConnected clientId)
      \<longleftrightarrow> map_of (clients s) clientId = None)
   \<and> (isl (fst (requestFileDownload now clientId s)) \<longleftrightarrow> map_of (clients s) clientId = None)
   \<and> (map_of (clients s) clientId = None \<longrightarrow> snd (requestFileDownload now clientId s) = s)
   \<and> (\<forall>c. map_of (clients s) clientId = Some c \<longrightarrow>
         fst (requestFileDownload now clientId s) =
           Inr \<lparr>handle_clientId = clientId, handle_downloadId = new_downloadId now,
                handle_status = ''initiated''\<rparr>
         \<and> sent (snd (requestFileDownload now clientId s)) =
             sent s @ [(ws c, DownloadRequest (new_downloadId now))]
         \<and> clients (snd (requestFileDownload now clientId s)) = clients s
         \<and> streams (snd (requestFileDownload now clientId s)) = streams s)"
    by (cases "map_of (clients s) clientId") (simp_all add: requestFileDownload_def Let_def)
  ultimately show ?thesis by blast
qed

theorem requestFileDownload_contract_witness:
  "fst (requestFileDownload 2000 ''ghost'' (run demo_registered (initial_server ''downloads''))) =
     Inl (ClientNotConnected ''ghost'')
   \<and> fst (requestFileDownload 2000 ''restaurant-1'' (run demo_registered (initial_server ''downloads''))) =
       Inr \<lparr>handle_clientId = ''restaurant-1'', handle_downloadId = ''download_2000'',
            handle_status = ''initiated''\<rparr>
   \<and> sent (snd (requestFileDownload 2000 ''restaurant-1'' (run demo_registered (initial_server ''downloads'')))) =
       [(7, Registered ''restaurant-1''), (7, DownloadRequest ''download_2000'')]
   \<and> ''download_2002'' \<notin> set (requested_ids (sent (run demo_transfer (initial_server ''downloads''))))"
proof -
  let ?s = "run demo_registered (initial_server ''downloads'')"
  have g: "map_of (clients ?s) ''ghost'' = None"
    and r: "map_of (clients ?s) ''restaurant-1'' = Some demo_client"
    and ev: "new_downloadId 2000 = ''download_2000''" "ws demo_client = 7"
      "sent ?s = [(7, Registered ''restaurant-1'')]"
      "new_downloadId 2002 = ''download_2002''"
    and t: "2002 \<notin> set (request_times demo_transfer)"
    by code_simp+
  from requestFileDownload_contract [of 2000 "''ghost''" ?s] g
  have "fst (requestFileDownload 2000 ''ghost'' ?s) = Inl (ClientNotConnected ''ghost'')"
    by blast
  moreover from requestFileDownload_contract [of 2000 "''restaurant-1''" ?s] r
  have "fst (requestFileDownload 2000 ''restaurant-1'' ?s) =
           Inr \<lparr>handle_clientId = ''restaurant-1'', handle_downloadId = new_downloadId 2000,
                handle_status = ''initiated''\<rparr>
         \<and> sent (snd (requestFileDownload 2000 ''restaurant-1'' ?s)) =
             sent ?s @ [(ws demo_client, DownloadRequest (new_downloadId 2000))]"
    by blast
  moreover
  from requestFileDownload_contract [of 2002 "''restaurant-1''" "run demo_transfer (initial_server ''downloads'')"] t
  have "new_downloadId 2002 \<notin> set (requested_ids (sent (run demo_transfer (initial_server ''downloads''))))"
    by blast
  ultimately show ?thesis
    unfolding ev by simp
qed

text \<open>
  Claim C3 as stated fails at this input. After a request to \<open>restaurant-1\<close> at clock
  reading 2000 the identifier \<open>download_2000\<close> has been sent; a second request at the
  same reading is answered with the same identifier, which is not fresh.
\<close>

theorem request_identifier_repeats:
  "requested_ids (sent (run (demo_registered @ [Requested 2000 ''restaurant-1''])
       (initial_server ''downloads''))) = [''download_2000'']
   \<and> fst (requestFileDownload 2000 ''restaurant-1''
        (run (demo_registered @ [Requested 2000 ''restaurant-1'']) (initial_server ''downloads''))) =
       Inr \<lparr>handle_clientId = ''restaurant-1'', handle_downloadId = ''download_2000'',
            handle_status = ''initiated''\<rparr>"
  by code_simp

text \<open>
  Claim C4, as the code has it. A request for a registered client is never rejected
  and replaces nothing, whether or not an earlier request is still being served: it
  resolves to a handle with the identifier \<open>download_<clock reading>\<close> and leaves the
  registry and the write streams as they are. After it, \<open>file-chunk\<close> messages for
  that client that arrive in a row, whatever \<open>downloadId\<close> each carries, are all decoded
  and written, in arrival order, to one stream: the stream of the download under way
  or, when there is none, the stream that the first of them opens, at the path of its
  own \<open>downloadId\<close>. A \<open>file-complete\<close> message for the client that arrives after them,
  whatever \<open>downloadId\<close> it carries, ends that stream and removes the download record.
\<close>

theorem second_request_shares_sink:
  assumes "map_of (clients s) clientId = Some c"
  shows "fst (requestFileDownload now clientId s) =
           Inr \<lparr>handle_clientId = clientId, handle_downloadId = new_downloadId now,
                handle_status = ''initiated''\<rparr>
       \<and> clients (snd (requestFileDownload now clientId s)) = clients s
       \<and> streams (snd (requestFileDownload now clientId s)) = streams s
       \<and> (\<forall>d. currentDownload c = Some d \<longrightarrow>
            streams (run (arrivals at k
                (map (\<lambda>(downloadId, chunk, chunkIndex). FileChunk clientId downloadId chunk chunkIndex) ms))
              (snd (requestFileDownload now clientId s))) =
              stream_write (stream d)
                (concat (map (\<lambda>(downloadId, chunk, chunkIndex). b64_decode chunk) ms)) (streams s)
            \<and> streams (run (arrivals at k
                (map (\<lambda>(downloadId, chunk, chunkIndex). FileChunk clientId downloadId chunk chunkIndex) ms @
                 [FileComplete clientId downloadId' totalChunks fileSize]))
              (snd (requestFileDownload now clientId s))) =
              stream_end (stream d) (stream_write (stream d)
                (concat (map (\<lambda>(downloadId, chunk, chunkIndex). b64_decode chunk) ms)) (streams s))
            \<and> map_of (clients (run (arrivals at k
                (map (\<lambda>(downloadId, chunk, chunkIndex). FileChunk clientId downloadId chunk chunkIndex) ms @
                 [FileComplete clientId downloadId' totalChunks fileSize]))
              (snd (requestFileDownload now clientId s)))) clientId =
              Some (c\<lparr>currentDownload := None\<rparr>))
       \<and> (currentDownload c = None \<longrightarrow>
            streams (run (arrivals at k
                (map (\<lambda>(downloadId, chunk, chunkIndex). FileChunk clientId downloadId chunk chunkIndex)
                   ((downloadId0, chunk0, chunkIndex0) # ms)))
              (snd (requestFileDownload now clientId s))) =
              streams s @ [\<lparr>path = path_join (DOWNLOAD_DIR s) (fileName_of clientId downloadId0),
                written = b64_decode chunk0 @
                  concat (map (\<lambda>(downloadId, chunk, chunkIndex). b64_decode chunk) ms),
                ended = False\<rparr>]
            \<and> streams (run (arrivals at k
                (map (\<lambda>(downloadId, chunk, chunkIndex). FileChunk clientId downloadId chunk chunkIndex)
                   ((downloadId0, chunk0, chunkIndex0) # ms) @
                 [FileComplete clientId downloadId' totalChunks fileSize]))
              (snd (requestFileDownload now clientId s))) =
              streams s @ [\<lparr>path = path_join (DOWNLOAD_DIR s) (fileName_of clientId downloadId0),
                written = b64_decode chunk0 @
                  concat (map (\<lambda>(downloadId, chunk, chunkIndex). b64_decode chunk) ms),
                ended = True\<rparr>])"
proof -
  let ?s' = "snd (requestFileDownload now clientId s)"
  let ?msg = "\<lambda>(downloadId, chunk, chunkIndex). FileChunk clientId downloadId chunk chunkIndex"
  let ?bytes = "\<lambda>(downloadId :: string, chunk, chunkIndex :: nat). b64_decode chunk"
  note req = requestFileDownload_registered [OF assms, of now]
  from assms req(2) have reg: "map_of (clients ?s') clientId = Some c" by simp
  have busy: "streams (run (arrivals at k (map ?msg ms)) ?s') =
              stream_write (stream d) (concat (map ?bytes ms)) (streams s)
            \<and> streams (run (arrivals at k (map ?msg ms @
                 [FileComplete clientId downloadId' totalChunks fileSize])) ?s') =
              stream_end (stream d) (stream_write (stream d) (concat (map ?bytes ms)) (streams s))
            \<and> map_of (clients (run (arrivals at k (map ?msg ms @
                 [FileComplete clientId downloadId' totalChunks fileSize])) ?s')) clientId =
              Some (c\<lparr>currentDownload := None\<rparr>)"
    if cur: "currentDownload c = Some d" for d
  proof -
    let ?d = "d\<lparr>chunksReceived := chunksReceived d + length ms\<rparr>"
    let ?c = "c\<lparr>currentDownload := Some ?d\<rparr>"
    from run_chunk_messages [OF reg cur, of at k ms]
    have st: "streams (run (arrivals at k (map ?msg ms)) ?s') =
        stream_write (stream d) (concat (map ?bytes ms)) (streams s)"
      and cl: "map_of (clients (run (arrivals at k (map ?msg ms)) ?s')) clientId = Some ?c"
      using req(3) by simp_all
    have cd: "currentDownload ?c = Some ?d" by simp
    from handleFileComplete_current(1,2) [OF cl cd] st
    show ?thesis
      by (simp add: run_complete_after map_of_update_same)
  qed
  have idle: "streams (run (arrivals at k (map ?msg ((downloadId0, chunk0, chunkIndex0) # ms))) ?s') =
              streams s @ [\<lparr>path = path_join (DOWNLOAD_DIR s) (fileName_of clientId downloadId0),
                written = b64_decode chunk0 @ concat (map ?bytes ms), ended = False\<rparr>]
            \<and> streams (run (arrivals at k (map ?msg ((downloadId0, chunk0, chunkIndex0) # ms) @
                 [FileComplete clientId downloadId' totalChunks fileSize])) ?s') =
              streams s @ [\<lparr>path = path_join (DOWNLOAD_DIR s) (fileName_of clientId downloadId0),
                written = b64_decode chunk0 @ concat (map ?bytes ms), ended = True\<rparr>]"
    if none: "currentDownload c = None"
  proof -
    let ?p = "path_join (DOWNLOAD_DIR s) (fileName_of clientId downloadId0)"
    let ?s1 = "handleFileChunk (fst (at k)) clientId downloadId0 chunk0 chunkIndex0 ?s'"
    let ?d1 = "\<lparr>download_id = downloadId0, filePath = ?p, stream = length (streams s),
        chunksReceived = 1, startTime = fst (at k)\<rparr>"
    let ?c1 = "c\<lparr>currentDownload := Some ?d1\<rparr>"
    let ?s2 = "run (arrivals at (Suc k) (map ?msg ms)) ?s1"
    let ?d2 = "?d1\<lparr>chunksReceived := chunksReceived ?d1 + length ms\<rparr>"
    let ?c2 = "?c1\<lparr>currentDownload := Some ?d2\<rparr>"
    note first = handleFileChunk_first(1,2) [OF reg none, of "fst (at k)" downloadId0 chunk0 chunkIndex0]
    have s1: "streams ?s1 = streams s @ [\<lparr>path = ?p, written = b64_decode chunk0, ended = False\<rparr>]"
      using first(1) req(3,4) by simp
    have c1: "map_of (clients ?s1) clientId = Some ?c1"
      using first(2) req(3,4) by (simp add: map_of_update_same)
    have cd1: "currentDownload ?c1 = Some ?d1" by simp
    from run_chunk_messages [OF c1 cd1, of at "Suc k" ms]
    have s2: "streams ?s2 = streams s @
        [\<lparr>path = ?p, written = b64_decode chunk0 @ concat (map ?bytes ms), ended = False\<rparr>]"
      and c2: "map_of (clients ?s2) clientId = Some ?c2"
      unfolding s1 by (simp_all add: stream_write_last)
    have cd2: "currentDownload ?c2 = Some ?d2" by simp
    have e1: "run (arrivals at k (map ?msg ((downloadId0, chunk0, chunkIndex0) # ms))) ?s' = ?s2"
      by (simp add: run_Cons on_message_def)
    have e2: "run (arrivals at k (map ?msg ((downloadId0, chunk0, chunkIndex0) # ms) @
          [FileComplete clientId downloadId' totalChunks fileSize])) ?s' =
        handleFileComplete (fst (at (k + length (map ?msg ((downloadId0, chunk0, chunkIndex0) # ms)))))
          clientId downloadId' totalChunks fileSize ?s2"
      unfolding run_complete_after e1 ..
    have fin: "streams (handleFileComplete t clientId downloadId' totalChunks fileSize ?s2) =
        streams s @ [\<lparr>path = ?p, written = b64_decode chunk0 @ concat (map ?bytes ms), ended = True\<rparr>]"
      for t
      using handleFileComplete_current(1) [OF c2 cd2, of t downloadId' totalChunks fileSize]
      unfolding s2 by (simp add: stream_end_last)
    show ?thesis
      by (simp only: e1 e2 s2 fin)
  qed
  from req(1,2,3) busy idle show ?thesis by blast
qed

theorem second_request_shares_sink_witness:
  "fst (requestFileDownload 2002 ''restaurant-1'' (run demo_transfer (initial_server ''downloads''))) =
     Inr \<lparr>handle_clientId = ''restaurant-1'', handle_downloadId = ''download_2002'',
          handle_status = ''initiated''\<rparr>
   \<and> streams (run (arrivals (\<lambda>k. (2003 + int k, 7)) 0
        [FileChunk ''restaurant-1'' ''download_2002'' ''Aw=='' 0,
         FileChunk ''restaurant-1'' ''download_2000'' ''BA=='' 1,
         FileComplete ''restaurant-1'' ''download_2002'' 1 1])
        (snd (requestFileDownload 2002 ''restaurant-1'' (run demo_transfer (initial_server ''downloads''))))) =
      [\<lparr>path = ''downloads/restaurant-1_download_2000_file_to_download.txt'',
         written = [1, 2, 3, 4], ended = True\<rparr>]
   \<and> streams (run (arrivals (\<lambda>k. (2003 + int k, 7)) 0
        [FileChunk ''restaurant-1'' ''download_2000'' ''AQI='' 0,
         FileChunk ''restaurant-1'' ''download_2002'' ''Aw=='' 0])
        (snd (requestFileDownload 2002 ''restaurant-1''
          (run (demo_registered @ [Requested 2000 ''restaurant-1'']) (initial_server ''downloads''))))) =
      [\<lparr>path = ''downloads/restaurant-1_download_2000_file_to_download.txt'',
         written = [1, 2, 3], ended = False\<rparr>]"
proof -
  let ?s = "run demo_transfer (initial_server ''downloads'')"
  let ?p = "run (demo_registered @ [Requested 2000 ''restaurant-1'']) (initial_server ''downloads'')"
  let ?at = "\<lambda>k. (2003 + int k, 7 :: nat)"
  have r: "map_of (clients ?s) ''restaurant-1'' = Some (demo_client\<lparr>currentDownload := Some demo_download\<rparr>)"
    and p: "map_of (clients ?p) ''restaurant-1'' = Some demo_client"
    by code_simp+
  have d: "currentDownload (demo_client\<lparr>currentDownload := Some demo_download\<rparr>) = Some demo_download"
    and n: "currentDownload demo_client = None"
    by (simp_all add: demo_client_def)
  have ev: "new_downloadId 2002 = ''download_2002''"
    "stream_end (stream demo_download) (stream_write (stream demo_download)
        (b64_decode ''Aw=='' @ b64_decode ''BA=='') (streams ?s)) =
      [\<lparr>path = ''downloads/restaurant-1_download_2000_file_to_download.txt'',
         written = [1, 2, 3, 4], ended = True\<rparr>]"
    "streams ?p = []"
    "path_join (DOWNLOAD_DIR ?p) (fileName_of ''restaurant-1'' ''download_2000'') =
       ''downloads/restaurant-1_download_2000_file_to_download.txt''"
    "b64_decode ''AQI='' @ b64_decode ''Aw=='' = [1, 2, 3]"
    by code_simp+
  from second_request_shares_sink [OF r, of 2002 ?at 0
      "[(''download_2002'', ''Aw=='', 0), (''download_2000'', ''BA=='', 1)]" "''download_2002''" 1 1] d
  have "fst (requestFileDownload 2002 ''restaurant-1'' ?s) =
           Inr \<lparr>handle_clientId = ''restaurant-1'', handle_downloadId = new_downloadId 2002,
                handle_status = ''initiated''\<rparr>
       \<and> streams (run (arrivals ?at 0
            (map (\<lambda>(downloadId, chunk, chunkIndex). FileChunk ''restaurant-1'' downloadId chunk chunkIndex)
               [(''download_2002'', ''Aw=='', 0), (''download_2000'', ''BA=='', 1)] @
             [FileComplete ''restaurant-1'' ''download_2002'' 1 1]))
            (snd (requestFileDownload 2002 ''restaurant-1'' ?s))) =
          stream_end (stream demo_download) (stream_write (stream demo_download)
            (concat (map (\<lambda>(downloadId, chunk, chunkIndex). b64_decode chunk)
               [(''download_2002'', ''Aw=='', 0 :: nat), (''download_2000'', ''BA=='', 1)])) (streams ?s))"
    by blast
  then have busy: "fst (requestFileDownload 2002 ''restaurant-1'' ?s) =
           Inr \<lparr>handle_clientId = ''restaurant-1'', handle_downloadId = ''download_2002'',
                handle_status = ''initiated''\<rparr>
       \<and> streams (run (arrivals ?at 0
            [FileChunk ''restaurant-1'' ''download_2002'' ''Aw=='' 0,
             FileChunk ''restaurant-1'' ''download_2000'' ''BA=='' 1,
             FileComplete ''restaurant-1'' ''download_2002'' 1 1])
            (snd (requestFileDownload 2002 ''restaurant-1'' ?s))) =
          [\<lparr>path = ''downloads/restaurant-1_download_2000_file_to_download.txt'',
             written = [1, 2, 3, 4], ended = True\<rparr>]"
    using ev(1,2) by (simp del: arrivals.simps)
  from second_request_shares_sink [OF p, of 2002 ?at 0 "[(''download_2002'', ''Aw=='', 0)]" _ _ _
      "''download_2000''" "''AQI=''" 0] n
  have "streams (run (arrivals ?at 0
            (map (\<lambda>(downloadId, chunk, chunkIndex). FileChunk ''restaurant-1'' downloadId chunk chunkIndex)
               ((''download_2000'', ''AQI='', 0) # [(''download_2002'', ''Aw=='', 0)])))
            (snd (requestFileDownload 2002 ''restaurant-1'' ?p))) =
          streams ?p @ [\<lparr>path = path_join (DOWNLOAD_DIR ?p) (fileName_of ''restaurant-1'' ''download_2000''),
            written = b64_decode ''AQI='' @
              concat (map (\<lambda>(downloadId, chunk, chunkIndex). b64_decode chunk)
                [(''download_2002'', ''Aw=='', 0 :: nat)]),
            ended = False\<rparr>]"
    by blast
  then have idle: "streams (run (arrivals ?at 0
            [FileChunk ''restaurant-1'' ''download_2000'' ''AQI='' 0,
             FileChunk ''restaurant-1'' ''download_2002'' ''Aw=='' 0])
            (snd (requestFileDownload 2002 ''restaurant-1'' ?p))) =
          [\<lparr>path = ''downloads/restaurant-1_download_2000_file_to_download.txt'',
             written = [1, 2, 3], ended = False\<rparr>]"
    using ev(3,4,5) by (simp del: arrivals.simps)
  from busy idle show ?thesis by blast
qed

text \<open>
  Claim C4 as stated fails at this input. With \<open>download_2000\<close> under way, the
  request made at 2002 is accepted, the registry
  is untouched, and the chunks of \<open>download_2002\<close> and of \<open>download_2000\<close> that arrive
  next end up, in arrival order, in the one file of \<open>download_2000\<close>.
\<close>

theorem second_request_interleaves:
  "fst (requestFileDownload 2002 ''restaurant-1'' (run demo_transfer (initial_server ''downloads''))) =
     Inr \<lparr>handle_clientId = ''restaurant-1'', handle_downloadId = ''download_2002'',
          handle_status = ''initiated''\<rparr>
   \<and> clients (snd (requestFileDownload 2002 ''restaurant-1'' (run demo_transfer (initial_server ''downloads'')))) =
       clients (run demo_transfer (initial_server ''downloads''))
   \<and> streams (run (demo_transfer @
        [Requested 2002 ''restaurant-1'',
         Received 2003 7 (Some (FileChunk ''restaurant-1'' ''download_2002'' ''Aw=='' 0)),
         Received 2004 7 (Some (FileChunk ''restaurant-1'' ''download_2000'' ''BA=='' 1))])
        (initial_server ''downloads'')) =
      [\<lparr>path = ''downloads/restaurant-1_download_2000_file_to_download.txt'',
         written = [1, 2, 3, 4], ended = False\<rparr>]"
  by code_simp

section \<open>Messages after completion\<close>

text \<open>
  Claim C5, as the code has it. \<open>file-complete\<close> for a client with a download under
  way ends the stream of that download and removes the download record. A
  \<open>file-chunk\<close> message for the same client that arrives afterwards, also one carrying
  the \<open>downloadId\<close> just completed, finds no download record: the server opens a new
  write stream at the path made of the client identifier and that \<open>downloadId\<close>, writes
  the decoded bytes to it and records a new download with one chunk received.
\<close>

theorem chunk_after_complete:
  assumes "map_of (clients s) clientId = Some c" and "currentDownload c = Some d"
  shows "map_of (clients (handleFileComplete t1 clientId downloadId totalChunks fileSize s)) clientId =
           Some (c\<lparr>currentDownload := None\<rparr>)
       \<and> streams (handleFileComplete t1 clientId downloadId totalChunks fileSize s) =
           stream_end (stream d) (streams s)
       \<and> streams (handleFileChunk t2 clientId downloadId chunk chunkIndex
            (handleFileComplete t1 clientId downloadId totalChunks fileSize s)) =
           stream_end (stream d) (streams s) @
           [\<lparr>path = path_join (DOWNLOAD_DIR s) (fileName_of clientId downloadId),
              written = b64_decode chunk, ended = False\<rparr>]
       \<and> map_of (clients (handleFileChunk t2 clientId downloadId chunk chunkIndex
            (handleFileComplete t1 clientId downloadId totalChunks fileSize s))) clientId =
           Some (c\<lparr>currentDownload := Some \<lparr>download_id = downloadId,
              filePath = path_join (DOWNLOAD_DIR s) (fileName_of clientId downloadId),
              stream = length (streams s), chunksReceived = 1, startTime = t2\<rparr>\<rparr>)"
proof -
  let ?s1 = "handleFileComplete t1 clientId downloadId totalChunks fileSize s"
  let ?c1 = "c\<lparr>currentDownload := None\<rparr>"
  note fin = handleFileComplete_current [OF assms, of t1 downloadId totalChunks fileSize]
  have reg: "map_of (clients ?s1) clientId = Some ?c1"
    using fin(2) by (simp add: map_of_update_same)
  have idle: "currentDownload ?c1 = None" by simp
  have len: "length (streams ?s1) = length (streams s)"
    using fin(1) by (simp add: stream_end_def)
  from handleFileChunk_first(1,2) [OF reg idle, of t2 downloadId chunk chunkIndex]
  show ?thesis
    using reg fin(1,4) len by (simp add: map_of_update_same)
qed

theorem chunk_after_complete_witness:
  "streams (handleFileChunk 2003 ''restaurant-1'' ''download_2000'' ''Aw=='' 1
      (handleFileComplete 2002 ''restaurant-1'' ''download_2000'' 1 2
        (run demo_transfer (initial_server ''downloads'')))) =
   [\<lparr>path = ''downloads/restaurant-1_download_2000_file_to_download.txt'',
      written = [1, 2], ended = True\<rparr>,
    \<lparr>path = ''downloads/restaurant-1_download_2000_file_to_download.txt'',
      written = [3], ended = False\<rparr>]"
proof -
  let ?s = "run demo_transfer (initial_server ''downloads'')"
  have r: "map_of (clients ?s) ''restaurant-1'' = Some (demo_client\<lparr>currentDownload := Some demo_download\<rparr>)"
    by code_simp
  have d: "currentDownload (demo_client\<lparr>currentDownload := Some demo_download\<rparr>) = Some demo_download"
    by simp
  have ev: "stream_end (stream demo_download) (streams ?s) =
      [\<lparr>path = ''downloads/restaurant-1_download_2000_file_to_download.txt'',
         written = [1, 2], ended = True\<rparr>]"
    "path_join (DOWNLOAD_DIR ?s) (fileName_of ''restaurant-1'' ''download_2000'') =
       ''downloads/restaurant-1_download_2000_file_to_download.txt''"
    "b64_decode ''Aw=='' = [3]"
    by code_simp+
  from chunk_after_complete [OF r d, of 2002 "''download_2000''" 1 2 2003 "''Aw==''" 1]
  show ?thesis
    unfolding ev by simp
qed

text \<open>
  Claim C5 as stated fails at this input. After \<open>file-complete\<close> for
  \<open>download_2000\<close> there is one, ended, stream. A further
  chunk with the same \<open>downloadId\<close> is not ignored: a second stream is opened at the
  same path and the byte 3 is written to it.
\<close>

theorem stale_chunk_opens_sink:
  "streams (run (demo_transfer @
      [Received 2002 7 (Some (FileComplete ''restaurant-1'' ''download_2000'' 1 2))])
      (initial_server ''downloads'')) =
   [\<lparr>path = ''downloads/restaurant-1_download_2000_file_to_download.txt'',
      written = [1, 2], ended = True\<rparr>]
   \<and> streams (run (demo_transfer @
      [Received 2002 7 (Some (FileComplete ''restaurant-1'' ''download_2000'' 1 2)),
       Received 2003 7 (Some (FileChunk ''restaurant-1'' ''download_2000'' ''Aw=='' 1))])
      (initial_server ''downloads'')) =
   [\<lparr>path = ''downloads/restaurant-1_download_2000_file_to_download.txt'',
      written = [1, 2], ended = True\<rparr>,
    \<lparr>path = ''downloads/restaurant-1_download_2000_file_to_download.txt'',
      written = [3], ended = False\<rparr>]"
  by code_simp

section \<open>Closing a connection\<close>

text \<open>
  Claim C6, at an input where registration followed by the close of the same
  connection leaves the entry in place. Connection 7 registers as \<open>a\<close> and then as
  \<open>b\<close>; when it closes, the loop of the \<open>close\<close> handler deletes \<open>a\<close>, the first entry
  of the connection, and stops: \<open>b\<close> is still found, with the closed connection.
\<close>

theorem close_keeps_second_registration:
  "map_of (clients (run [Connected 7,
       Received 1000 7 (Some (Register ''a'')),
       Received 1001 7 (Some (Register ''b'')),
       Closed 7] (initial_server ''downloads''))) ''b'' =
     Some \<lparr>ws = 7, client_id = ''b'', connectedAt = 1001, currentDownload = None\<rparr>"
  by code_simp

text \<open>
  Claim C7, as the code has it. When a connection closes, the entry found for it (the
  first one in the map that holds the connection) is deleted, and the download record
  with it: a lookup of that client finds nothing. The handler does nothing else: no
  state of the download is recorded, no message is sent and no write stream is touched,
  so the stream of a download under way is as it was, ended or not.
\<close>

theorem close_abandons_download:
  assumes "find (\<lambda>(k, c). ws c = w) (clients s) = Some (clientId, c)"
  shows "clients (on_close w s) = AList.delete clientId (clients s)
       \<and> map_of (clients (on_close w s)) clientId = None
       \<and> streams (on_close w s) = streams s
       \<and> sent (on_close w s) = sent s
       \<and> (\<forall>d. currentDownload c = Some d \<longrightarrow>
            ended (streams (on_close w s) ! stream d) = ended (streams s ! stream d))"
  using assms by (simp add: on_close_def delete_lookup)

theorem close_abandons_download_witness:
  "clients (on_close 7 (run demo_transfer (initial_server ''downloads''))) = []
   \<and> streams (on_close 7 (run demo_transfer (initial_server ''downloads''))) =
      [\<lparr>path = ''downloads/restaurant-1_download_2000_file_to_download.txt'',
         written = [1, 2], ended = False\<rparr>]"
proof -
  let ?s = "run demo_transfer (initial_server ''downloads'')"
  have f: "find (\<lambda>(k, c). ws c = 7) (clients ?s) =
      Some (''restaurant-1'', demo_client\<lparr>currentDownload := Some demo_download\<rparr>)"
    by code_simp
  have ev: "AList.delete ''restaurant-1'' (clients ?s) = []"
    "streams ?s = [\<lparr>path = ''downloads/restaurant-1_download_2000_file_to_download.txt'',
         written = [1, 2], ended = False\<rparr>]"
    by code_simp+
  from close_abandons_download [OF f]
  have "clients (on_close 7 ?s) = AList.delete ''restaurant-1'' (clients ?s)
      \<and> streams (on_close 7 ?s) = streams ?s"
    by blast
  then show ?thesis
    unfolding ev by simp
qed

text \<open>
  Claim C7 as stated fails at this input. The connection of \<open>restaurant-1\<close> closes while \<open>download_2000\<close> is under way: the
  registry is empty afterwards, and the write stream of the download has not been ended.
\<close>

theorem close_leaves_sink_open:
  "map_of (clients (run demo_transfer (initial_server ''downloads''))) ''restaurant-1'' =
     Some (demo_client\<lparr>currentDownload := Some demo_download\<rparr>)
   \<and> clients (run (demo_transfer @ [Closed 7]) (initial_server ''downloads'')) = []
   \<and> streams (run (demo_transfer @ [Closed 7]) (initial_server ''downloads'')) =
     [\<lparr>path = ''downloads/restaurant-1_download_2000_file_to_download.txt'',
        written = [1, 2], ended = False\<rparr>]"
  by code_simp

section \<open>Error messages\<close>

text \<open>
  Claim C8, as the code has it. An \<open>error\<close> message is logged and nothing else: the
  registry with its download records, the write streams and the messages sent are as
  before.
\<close>

theorem error_message_only_logged:
  "on_message now w (Some (ErrorMsg clientId downloadId err)) s =
     s\<lparr>console := console s @ [ErrorFromClient clientId err]\<rparr>
   \<and> clients (on_message now w (Some (ErrorMsg clientId downloadId err)) s) = clients s
   \<and> streams (on_message now w (Some (ErrorMsg clientId downloadId err)) s) = streams s
   \<and> sent (on_message now w (Some (ErrorMsg clientId downloadId err)) s) = sent s"
  by (simp add: on_message_def handleClientError_def)

text \<open>
  Claim C8 as stated fails at this input. After an \<open>error\<close> message for
  \<open>download_2000\<close> the client still has that download
  under way and its write stream is not ended.
\<close>

theorem error_leaves_session_open:
  "map_of (clients (run (demo_transfer @
       [Received 2002 7 (Some (ErrorMsg ''restaurant-1'' ''download_2000'' ''EIO''))])
       (initial_server ''downloads''))) ''restaurant-1'' =
     Some (demo_client\<lparr>currentDownload := Some demo_download\<rparr>)
   \<and> streams (run (demo_transfer @
       [Received 2002 7 (Some (ErrorMsg ''restaurant-1'' ''download_2000'' ''EIO''))])
       (initial_server ''downloads'')) =
     [\<lparr>path = ''downloads/restaurant-1_download_2000_file_to_download.txt'',
        written = [1, 2], ended = False\<rparr>]"
  by code_simp

section \<open>Identifiers and paths\<close>

text \<open>
  Claim C9, as the code has it. The identifier of a request is \<open>download_\<close> followed by
  the clock reading in milliseconds: two requests, for the same client or for different
  ones, get the same identifier exactly when the clock reads the same at both. A
  \<open>file-chunk\<close> message opens a write stream only when its client has no download under
  way, and then at the path that \<open>path.join\<close> makes of the download directory and the
  file name built from the client identifier and the \<open>downloadId\<close> of the message. For
  two streams so opened for identifiers of requests: when the clock readings differ the
  paths differ, whatever the clients and directories; with one directory, one client
  and one clock reading the path is the same; and with one directory and client
  identifiers without a slash the paths are the same exactly when both the client
  identifier and the clock reading are.
\<close>

theorem session_identifiers:
  "(\<forall>h1 h2. fst (requestFileDownload t1 c1 s1) = Inr h1 \<and>
            fst (requestFileDownload t2 c2 s2) = Inr h2 \<longrightarrow>
            (handle_downloadId h1 = handle_downloadId h2 \<longleftrightarrow> t1 = t2))
   \<and> (\<forall>e d. map_of (clients s1) c1 = Some e \<and> currentDownload e = Some d \<longrightarrow>
        length (streams (handleFileChunk n1 c1 downloadId chunk1 i1 s1)) = length (streams s1))
   \<and> (\<forall>e1 e2. map_of (clients s1) c1 = Some e1 \<and> currentDownload e1 = None \<and>
              map_of (clients s2) c2 = Some e2 \<and> currentDownload e2 = None \<longrightarrow>
        streams (handleFileChunk n1 c1 (new_downloadId t1) chunk1 i1 s1) =
          streams s1 @ [\<lparr>path = path_join (DOWNLOAD_DIR s1) (fileName_of c1 (new_downloadId t1)),
                          written = b64_decode chunk1, ended = False\<rparr>]
        \<and> streams (handleFileChunk n2 c2 (new_downloadId t2) chunk2 i2 s2) =
          streams s2 @ [\<lparr>path = path_join (DOWNLOAD_DIR s2) (fileName_of c2 (new_downloadId t2)),
                          written = b64_decode chunk2, ended = False\<rparr>]
        \<and> (path (last (streams (handleFileChunk n1 c1 (new_downloadId t1) chunk1 i1 s1))) =
            path (last (streams (handleFileChunk n2 c2 (new_downloadId t2) chunk2 i2 s2)))
            \<longrightarrow> t1 = t2)
        \<and> (DOWNLOAD_DIR s1 = DOWNLOAD_DIR s2 \<and> c1 = c2 \<and> t1 = t2 \<longrightarrow>
            path (last (streams (handleFileChunk n1 c1 (new_downloadId t1) chunk1 i1 s1))) =
            path (last (streams (handleFileChunk n2 c2 (new_downloadId t2) chunk2 i2 s2))))
        \<and> (DOWNLOAD_DIR s1 = DOWNLOAD_DIR s2 \<and> CHR ''/'' \<notin> set c1 \<and> CHR ''/'' \<notin> set c2 \<longrightarrow>
            (path (last (streams (handleFileChunk n1 c1 (new_downloadId t1) chunk1 i1 s1))) =
             path (last (streams (handleFileChunk n2 c2 (new_downloadId t2) chunk2 i2 s2)))
             \<longleftrightarrow> c1 = c2 \<and> t1 = t2)))"
proof -
  have ids: "\<forall>h1 h2. fst (requestFileDownload t1 c1 s1) = Inr h1 \<and>
            fst (requestFileDownload t2 c2 s2) = Inr h2 \<longrightarrow>
            (handle_downloadId h1 = handle_downloadId h2 \<longleftrightarrow> t1 = t2)"
    by (auto dest!: handle_of_request simp: new_downloadId_inj)
  have busy: "\<forall>e d. map_of (clients s1) c1 = Some e \<and> currentDownload e = Some d \<longrightarrow>
        length (streams (handleFileChunk n1 c1 downloadId chunk1 i1 s1)) = length (streams s1)"
    by (auto simp: handleFileChunk_current(1) stream_write_def)
  have sinks: "streams (handleFileChunk n1 c1 (new_downloadId t1) chunk1 i1 s1) =
          streams s1 @ [\<lparr>path = path_join (DOWNLOAD_DIR s1) (fileName_of c1 (new_downloadId t1)),
                          written = b64_decode chunk1, ended = False\<rparr>]
        \<and> streams (handleFileChunk n2 c2 (new_downloadId t2) chunk2 i2 s2) =
          streams s2 @ [\<lparr>path = path_join (DOWNLOAD_DIR s2) (fileName_of c2 (new_downloadId t2)),
                          written = b64_decode chunk2, ended = False\<rparr>]
        \<and> (path (last (streams (handleFileChunk n1 c1 (new_downloadId t1) chunk1 i1 s1))) =
            path (last (streams (handleFileChunk n2 c2 (new_downloadId t2) chunk2 i2 s2)))
            \<longrightarrow> t1 = t2)
        \<and> (DOWNLOAD_DIR s1 = DOWNLOAD_DIR s2 \<and> c1 = c2 \<and> t1 = t2 \<longrightarrow>
            path (last (streams (handleFileChunk n1 c1 (new_downloadId t1) chunk1 i1 s1))) =
            path (last (streams (handleFileChunk n2 c2 (new_downloadId t2) chunk2 i2 s2))))
        \<and> (DOWNLOAD_DIR s1 = DOWNLOAD_DIR s2 \<and> CHR ''/'' \<notin> set c1 \<and> CHR ''/'' \<notin> set c2 \<longrightarrow>
            (path (last (streams (handleFileChunk n1 c1 (new_downloadId t1) chunk1 i1 s1))) =
             path (last (streams (handleFileChunk n2 c2 (new_downloadId t2) chunk2 i2 s2)))
             \<longleftrightarrow> c1 = c2 \<and> t1 = t2))"
    if r1: "map_of (clients s1) c1 = Some e1" and i1: "currentDownload e1 = None"
      and r2: "map_of (clients s2) c2 = Some e2" and i2: "currentDownload e2 = None" for e1 e2
  proof -
    note f1 = handleFileChunk_first(1) [OF r1 i1, of n1 "new_downloadId t1" chunk1 i1]
    note f2 = handleFileChunk_first(1) [OF r2 i2, of n2 "new_downloadId t2" chunk2 i2]
    show ?thesis
      unfolding f1 f2
      using session_path_inj [of "DOWNLOAD_DIR s1" c1 t1 "DOWNLOAD_DIR s2" c2 t2]
        plain_client_paths [of c1 c2 "DOWNLOAD_DIR s2" t1 t2]
      by auto
  qed
  from ids busy sinks show ?thesis by blast
qed

theorem session_identifiers_witness:
  "streams (handleFileChunk 2001 ''restaurant-1'' ''download_2000'' ''AQI='' 0
      (run demo_registered (initial_server ''downloads''))) =
     [\<lparr>path = ''downloads/restaurant-1_download_2000_file_to_download.txt'',
        written = [1, 2], ended = False\<rparr>]
   \<and> streams (handleFileChunk 2003 ''restaurant-1'' ''download_2002'' ''Aw=='' 0
      (run demo_registered (initial_server ''downloads''))) =
     [\<lparr>path = ''downloads/restaurant-1_download_2002_file_to_download.txt'',
        written = [3], ended = False\<rparr>]"
proof -
  let ?s = "run demo_registered (initial_server ''downloads'')"
  have r: "map_of (clients ?s) ''restaurant-1'' = Some demo_client"
    by code_simp
  have n: "currentDownload demo_client = None"
    by (simp add: demo_client_def)
  have ev: "new_downloadId 2000 = ''download_2000''" "new_downloadId 2002 = ''download_2002''"
    "streams ?s = []"
    "path_join (DOWNLOAD_DIR ?s) (fileName_of ''restaurant-1'' ''download_2000'') =
       ''downloads/restaurant-1_download_2000_file_to_download.txt''"
    "path_join (DOWNLOAD_DIR ?s) (fileName_of ''restaurant-1'' ''download_2002'') =
       ''downloads/restaurant-1_download_2002_file_to_download.txt''"
    "b64_decode ''AQI='' = [1, 2]" "b64_decode ''Aw=='' = [3]"
    by code_simp+
  from session_identifiers [of 2000 "''restaurant-1''" ?s 2002 "''restaurant-1''" ?s
      2001 _ "''AQI=''" 0 2003 "''Aw==''" 0] r n
  have "streams (handleFileChunk 2001 ''restaurant-1'' (new_downloadId 2000) ''AQI='' 0 ?s) =
          streams ?s @ [\<lparr>path = path_join (DOWNLOAD_DIR ?s) (fileName_of ''restaurant-1'' (new_downloadId 2000)),
                          written = b64_decode ''AQI='', ended = False\<rparr>]
        \<and> streams (handleFileChunk 2003 ''restaurant-1'' (new_downloadId 2002) ''Aw=='' 0 ?s) =
          streams ?s @ [\<lparr>path = path_join (DOWNLOAD_DIR ?s) (fileName_of ''restaurant-1'' (new_downloadId 2002)),
                          written = b64_decode ''Aw=='', ended = False\<rparr>]"
    by blast
  then show ?thesis
    unfolding ev by simp
qed

text \<open>
  Claim C9 as stated fails at this input. Two requests to \<open>restaurant-1\<close> within
  the same millisecond carry the same
  identifier, and the two transfers that answer them are written to two streams at
  the same path.
\<close>

theorem same_millisecond_same_identifier:
  "sent (run (demo_registered @
       [Requested 2000 ''restaurant-1'', Requested 2000 ''restaurant-1''])
       (initial_server ''downloads'')) =
     [(7, Registered ''restaurant-1''),
      (7, DownloadRequest ''download_2000''),
      (7, DownloadRequest ''download_2000'')]
   \<and> streams (run (demo_registered @
       [Requested 2000 ''restaurant-1'', Requested 2000 ''restaurant-1'',
        Received 2001 7 (Some (FileChunk ''restaurant-1'' ''download_2000'' ''AQI='' 0)),
        Received 2002 7 (Some (FileComplete ''restaurant-1'' ''download_2000'' 1 2)),
        Received 2003 7 (Some (FileChunk ''restaurant-1'' ''download_2000'' ''Aw=='' 0)),
        Received 2004 7 (Some (FileComplete ''restaurant-1'' ''download_2000'' 1 1))])
       (initial_server ''downloads'')) =
     [\<lparr>path = ''downloads/restaurant-1_download_2000_file_to_download.txt'',
        written = [1, 2], ended = True\<rparr>,
      \<lparr>path = ''downloads/restaurant-1_download_2000_file_to_download.txt'',
        written = [3], ended = True\<rparr>]"
  by code_simp

section \<open>Routing by client identifier\<close>

text \<open>
  Claim C10 (routing). What a \<open>file-chunk\<close> or \<open>file-complete\<close> message does is the same
  on whichever connection it arrives: the client is looked up by the \<open>clientId\<close> in the
  message. When that identifier has no entry, the message only adds a log line: no
  stream is opened or written and the registry is as before. When it has an entry with
  a download under way, a chunk is written to the stream of that download and counted,
  and \<open>file-complete\<close> ends that stream and removes the download record. When it has an
  entry with no download, a chunk opens a new stream and \<open>file-complete\<close> changes
  nothing.
\<close>

theorem routing_by_clientId:
  "on_message now w (Some (FileChunk clientId downloadId chunk chunkIndex)) s =
     on_message now w' (Some (FileChunk clientId downloadId chunk chunkIndex)) s
   \<and> on_message now w (Some (FileComplete clientId downloadId totalChunks fileSize)) s =
     on_message now w' (Some (FileComplete clientId downloadId totalChunks fileSize)) s
   \<and> (map_of (clients s) clientId = None \<longrightarrow>
        on_message now w (Some (FileChunk clientId downloadId chunk chunkIndex)) s =
          s\<lparr>console := console s @ [ClientNotFound clientId]\<rparr>
        \<and> on_message now w (Some (FileComplete clientId downloadId totalChunks fileSize)) s =
          s\<lparr>console := console s @ [ClientNotFound clientId]\<rparr>)
   \<and> (\<forall>c d. map_of (clients s) clientId = Some c \<and> currentDownload c = Some d \<longrightarrow>
        streams (on_message now w (Some (FileChunk clientId downloadId chunk chunkIndex)) s) =
          stream_write (stream d) (b64_decode chunk) (streams s)
        \<and> map_of (clients (on_message now w (Some (FileChunk clientId downloadId chunk chunkIndex)) s))
            clientId =
          Some (c\<lparr>currentDownload := Some (d\<lparr>chunksReceived := chunksReceived d + 1\<rparr>)\<rparr>)
        \<and> streams (on_message now w (Some (FileComplete clientId downloadId totalChunks fileSize)) s) =
          stream_end (stream d) (streams s)
        \<and> map_of (clients (on_message now w (Some (FileComplete clientId downloadId totalChunks fileSize)) s))
            clientId =
          Some (c\<lparr>currentDownload := None\<rparr>))
   \<and> (\<forall>c. map_of (clients s) clientId = Some c \<and> currentDownload c = None \<longrightarrow>
        streams (on_message now w (Some (FileChunk clientId downloadId chunk chunkIndex)) s) =
          streams s @ [\<lparr>path = path_join (DOWNLOAD_DIR s) (fileName_of clientId downloadId),
                         written = b64_decode chunk, ended = False\<rparr>]
        \<and> on_message now w (Some (FileComplete clientId downloadId totalChunks fileSize)) s = s)"
proof -
  have a: "on_message now u (Some (FileChunk clientId downloadId chunk chunkIndex)) s =
      handleFileChunk now clientId downloadId chunk chunkIndex s" for u
    by (simp add: on_message_def)
  have b: "on_message now u (Some (FileComplete clientId downloadId totalChunks fileSize)) s =
      handleFileComplete now clientId downloadId totalChunks fileSize s" for u
    by (simp add: on_message_def)
  show ?thesis
    unfolding a b
    by (auto simp: handleFileChunk_unknown handleFileComplete_unknown handleFileChunk_current
        handleFileComplete_current handleFileChunk_first handleFileComplete_idle map_of_update_same)
qed

theorem routing_by_clientId_witness:
  "on_message 2002 99 (Some (FileChunk ''ghost'' ''download_2000'' ''Aw=='' 1))
      (run demo_transfer (initial_server ''downloads'')) =
     (run demo_transfer (initial_server ''downloads''))
       \<lparr>console := console (run demo_transfer (initial_server ''downloads'')) @ [ClientNotFound ''ghost'']\<rparr>
   \<and> streams (on_message 2002 99 (Some (FileChunk ''restaurant-1'' ''download_2000'' ''Aw=='' 1))
      (run demo_transfer (initial_server ''downloads''))) =
     [\<lparr>path = ''downloads/restaurant-1_download_2000_file_to_download.txt'',
        written = [1, 2, 3], ended = False\<rparr>]
   \<and> ws (demo_client\<lparr>currentDownload := Some demo_download\<rparr>) = 7"
proof -
  let ?s = "run demo_transfer (initial_server ''downloads'')"
  have g: "map_of (clients ?s) ''ghost'' = None"
    and r: "map_of (clients ?s) ''restaurant-1'' = Some (demo_client\<lparr>currentDownload := Some demo_download\<rparr>)"
    by code_simp+
  have d: "currentDownload (demo_client\<lparr>currentDownload := Some demo_download\<rparr>) = Some demo_download"
    by simp
  have ev: "stream_write (stream demo_download) (b64_decode ''Aw=='') (streams ?s) =
      [\<lparr>path = ''downloads/restaurant-1_download_2000_file_to_download.txt'',
         written = [1, 2, 3], ended = False\<rparr>]"
    "ws (demo_client\<lparr>currentDownload := Some demo_download\<rparr>) = 7"
    by code_simp+
  from routing_by_clientId [of 2002 99 "''ghost''" "''download_2000''" "''Aw==''" 1 ?s 99 1 2] g
  have "on_message 2002 99 (Some (FileChunk ''ghost'' ''download_2000'' ''Aw=='' 1)) ?s =
      ?s\<lparr>console := console ?s @ [ClientNotFound ''ghost'']\<rparr>"
    by blast
  moreover
  from routing_by_clientId [of 2002 99 "''restaurant-1''" "''download_2000''" "''Aw==''" 1 ?s 99 1 2] r d
  have "streams (on_message 2002 99 (Some (FileChunk ''restaurant-1'' ''download_2000'' ''Aw=='' 1)) ?s) =
      stream_write (stream demo_download) (b64_decode ''Aw=='') (streams ?s)"
    by blast
  ultimately show ?thesis
    unfolding ev by simp
qed

end
